theory Spec2Isabelle
  imports Main "HOL-Library.Sublist"
begin

section \<open>Strings of the Go runtime\<close>

text \<open>
  A Go \<^verbatim>\<open>string\<close> is a sequence of bytes; \<^typ>\<open>string\<close> (a list of 8-bit characters)
  models it byte for byte.  The functions of this section are the ones of packages
  \<^verbatim>\<open>strings\<close>, \<^verbatim>\<open>regexp\<close> and \<^verbatim>\<open>path/filepath\<close> that \<^verbatim>\<open>tiddler.go\<close> and the store
  call, written out over bytes.
\<close>

definition NL :: char where
  "NL = CHR 0x0A"

text \<open>
  \<^verbatim>\<open>reWhitespaceOnly = regexp.MustCompile(`^\s*$`)\<close>.  In Go's regular expressions
  \<^verbatim>\<open>\s\<close> is the class \<^verbatim>\<open>[\t\n\f\r ]\<close>, and without the multi-line flag \<^verbatim>\<open>^\<close> and
  \<^verbatim>\<open>$\<close> are the two ends of the text: the expression matches exactly the strings made of
  these five bytes only (the empty string among them).
\<close>

definition reSpaceClass :: "char \<Rightarrow> bool" where
  "reSpaceClass c \<longleftrightarrow> c \<in> {CHR 0x09, CHR 0x0A, CHR 0x0C, CHR 0x0D, CHR 0x20}"

definition reWhitespaceOnly :: "string \<Rightarrow> bool" where
  "reWhitespaceOnly s \<longleftrightarrow> list_all reSpaceClass s"

text \<open>
  \<^verbatim>\<open>strings.TrimSpace\<close> removes the leading and the trailing white space \<^emph>\<open>runes\<close>, as
  \<^verbatim>\<open>unicode.IsSpace\<close> defines them: the six ASCII ones (here \<^verbatim>\<open>\v\<close> counts), U+0085,
  U+00A0, U+1680, U+2000 to U+200A, U+2028, U+2029, U+202F, U+205F and U+3000.  Only
  the shortest UTF-8 form decodes to a rune, so a string starts (ends) with a white
  space rune exactly when one of the byte sequences below is a prefix (suffix) of it;
  an invalid byte decodes to U+FFFD, of width one, which is no white space.
\<close>

definition whiteSpaceRunes :: "string list" where
  "whiteSpaceRunes =
    [[CHR 0x09], [CHR 0x0A], [CHR 0x0B], [CHR 0x0C], [CHR 0x0D], [CHR 0x20],
     [CHR 0xC2, CHR 0x85], [CHR 0xC2, CHR 0xA0],
     [CHR 0xE1, CHR 0x9A, CHR 0x80],
     [CHR 0xE2, CHR 0x80, CHR 0x80], [CHR 0xE2, CHR 0x80, CHR 0x81],
     [CHR 0xE2, CHR 0x80, CHR 0x82], [CHR 0xE2, CHR 0x80, CHR 0x83],
     [CHR 0xE2, CHR 0x80, CHR 0x84], [CHR 0xE2, CHR 0x80, CHR 0x85],
     [CHR 0xE2, CHR 0x80, CHR 0x86], [CHR 0xE2, CHR 0x80, CHR 0x87],
     [CHR 0xE2, CHR 0x80, CHR 0x88], [CHR 0xE2, CHR 0x80, CHR 0x89],
     [CHR 0xE2, CHR 0x80, CHR 0x8A],
     [CHR 0xE2, CHR 0x80, CHR 0xA8], [CHR 0xE2, CHR 0x80, CHR 0xA9],
     [CHR 0xE2, CHR 0x80, CHR 0xAF], [CHR 0xE2, CHR 0x81, CHR 0x9F],
     [CHR 0xE3, CHR 0x80, CHR 0x80]]"

text \<open>
  \<open>trimLeading pats s\<close> drops from the front of \<open>s\<close> every occurrence of one of the
  (non-empty) byte sequences \<open>pats\<close>, until none is a prefix of what is left: the loop
  of \<^verbatim>\<open>strings.TrimLeftFunc\<close>, rune by rune.
\<close>

fun trimLeading :: "string list \<Rightarrow> string \<Rightarrow> string" where
  "trimLeading pats [] = []"
| "trimLeading pats (c # cs) =
     (case find (\<lambda>p. p \<noteq> [] \<and> prefix p (c # cs)) pats of
        None \<Rightarrow> c # cs
      | Some p \<Rightarrow> trimLeading pats (drop (length p - 1) cs))"

definition TrimSpace :: "string \<Rightarrow> string" where
  "TrimSpace s =
     rev (trimLeading (map rev whiteSpaceRunes) (rev (trimLeading whiteSpaceRunes s)))"

text \<open>\<^verbatim>\<open>strings.Index(s, c)\<close> for a one-byte \<open>c\<close>: the first position of \<open>c\<close>, or \<open>-1\<close>.\<close>

definition Index :: "string \<Rightarrow> char \<Rightarrow> int" where
  "Index s c = (if c \<in> set s then int (length (takeWhile (\<lambda>x. x \<noteq> c) s)) else - 1)"

definition HasPrefix :: "string \<Rightarrow> string \<Rightarrow> bool" where
  "HasPrefix s p \<longleftrightarrow> take (length p) s = p"

definition HasSuffix :: "string \<Rightarrow> string \<Rightarrow> bool" where
  "HasSuffix s x \<longleftrightarrow> length x \<le> length s \<and> drop (length s - length x) s = x"

definition TrimSuffix :: "string \<Rightarrow> string \<Rightarrow> string" where
  "TrimSuffix s x = (if HasSuffix s x then take (length s - length x) s else s)"

text \<open>
  \<^verbatim>\<open>path/filepath\<close> on a system whose separator is the slash.  \<^verbatim>\<open>Clean\<close> works on the
  elements between slashes: empty elements and \<^verbatim>\<open>.\<close> are dropped, \<^verbatim>\<open>..\<close> removes the
  element before it, is dropped at the root, and is kept at the front of a path that
  is not rooted; the empty result is \<^verbatim>\<open>.\<close>.  \<^verbatim>\<open>Join\<close> ignores empty arguments and cleans
  the rest, joined by slashes; the store calls it with two arguments.
\<close>

fun splitOn :: "char \<Rightarrow> string \<Rightarrow> string list" where
  "splitOn c [] = [[]]"
| "splitOn c (x # xs) =
     (if x = c then [] # splitOn c xs
      else (case splitOn c xs of [] \<Rightarrow> [[x]] | y # ys \<Rightarrow> (x # y) # ys))"

fun joinWith :: "string \<Rightarrow> string list \<Rightarrow> string" where
  "joinWith sep [] = []"
| "joinWith sep [e] = e"
| "joinWith sep (e # es) = e @ sep @ joinWith sep es"

text \<open>\<open>out\<close> is the output so far, last element first.\<close>

fun cleanElems :: "bool \<Rightarrow> string list \<Rightarrow> string list \<Rightarrow> string list" where
  "cleanElems rooted out [] = rev out"
| "cleanElems rooted out (e # es) =
     (if e = [] \<or> e = ''.'' then cleanElems rooted out es
      else if e = ''..'' then
        (case out of
           [] \<Rightarrow> if rooted then cleanElems rooted [] es else cleanElems rooted [''..''] es
         | x # xs \<Rightarrow>
             if x = ''..'' then cleanElems rooted (''..'' # out) es
             else cleanElems rooted xs es)
      else cleanElems rooted (e # out) es)"

definition Clean :: "string \<Rightarrow> string" where
  "Clean path =
     (if path = [] then ''.''
      else
        (let rooted = (hd path = CHR ''/'');
             body = joinWith ''/'' (cleanElems rooted [] (splitOn (CHR ''/'') path))
         in if rooted then ''/'' @ body else if body = [] then ''.'' else body))"

definition Join :: "string \<Rightarrow> string \<Rightarrow> string" where
  "Join a b =
     (if a \<noteq> [] then Clean (a @ ''/'' @ b) else if b \<noteq> [] then Clean b else [])"

section \<open>Errors, panics and outcomes\<close>

text \<open>
  The errors of the package are \<^verbatim>\<open>fmt.Errorf\<close> messages; each constructor stands for
  one message format, its arguments for the values filled in.  \<open>BackendError\<close> is an
  error handed up by a reader, writer, walker or remove primitive of a backend,
  \<open>IOFailure\<close> a failure of a stream while it is read, \<open>EOF\<close> is \<^verbatim>\<open>io.EOF\<close>.
\<close>

datatype error =
    ReaderIsNil
  | WriterIsNil
  | TitleNotFound
  | EmptyMessage
  | ErrorReadingLine error
  | CouldNotOpenFile string error
  | CouldNotReadAsTiddler string error
  | CouldNotReadContents string error
  | BackendError string
  | IOFailure
  | EOF

text \<open>
  A run-time panic is no error value: it unwinds the goroutine.  The model keeps the
  kinds apart that occur in the code: a slice expression out of range, a failed type
  assertion \<^verbatim>\<open>v.(T)\<close>, an assignment to an entry of a nil map, and the explicit
  \<^verbatim>\<open>panic(...)\<close> of the full listing, with the path it reports.
\<close>

datatype panic =
    SliceOutOfRange
  | TypeAssertion
  | NilMapAssignment
  | ExplicitPanic string

datatype 'a outcome = Ok 'a | Err error | Panic panic

section \<open>Byte streams\<close>

text \<open>
  An \<^verbatim>\<open>io.Reader\<close> that has been opened delivers the bytes \<open>data\<close> and then ends: with
  \<^verbatim>\<open>io.EOF\<close>, or, when \<open>ioerr\<close> is set, with a failure of the medium.
\<close>

record stream =
  data :: string
  ioerr :: bool

text \<open>
  \<^verbatim>\<open>bufio.Reader.ReadString('\n')\<close>: the bytes up to and including the first newline;
  when the stream ends before a newline, the bytes read so far together with the error
  that ended it.  The third component is the stream that is left.
\<close>

definition ReadString :: "stream \<Rightarrow> string \<times> error option \<times> stream" where
  "ReadString s =
     (if NL \<in> set (data s)
      then (takeWhile (\<lambda>c. c \<noteq> NL) (data s) @ [NL], None,
            s\<lparr>data := drop 1 (dropWhile (\<lambda>c. c \<noteq> NL) (data s))\<rparr>)
      else (data s, Some (if ioerr s then IOFailure else EOF), s\<lparr>data := []\<rparr>))"

text \<open>\<^verbatim>\<open>io.ReadAll\<close>: everything that is left; end of file is no error for it.\<close>

definition ReadAll :: "stream \<Rightarrow> string \<times> error option" where
  "ReadAll s = (data s, if ioerr s then Some IOFailure else None)"

section \<open>Records and their line encoding (tiddler.go)\<close>

text \<open>
  \<^verbatim>\<open>type Tiddler map[string]interface{}\<close>.  The dynamic values that occur are strings,
  byte slices (the body of a binary sidecar), arrays and nested objects (both from
  JSON); a nested object lists its entries in the order \<^verbatim>\<open>range\<close> visits them.
\<close>

datatype fieldval =
    VStr string
  | VBytes string
  | VArr "fieldval list"
  | VMap "(string \<times> fieldval) list"

type_synonym Tiddler = "string \<rightharpoonup> fieldval"

text \<open>
  The loop of \<^verbatim>\<open>TiddlerFile.Read\<close>.  \<^verbatim>\<open>strings.Index(line, ":")\<close> is \<open>-1\<close> for a line
  without a colon, and the slice expression \<^verbatim>\<open>line[:idx]\<close> then panics.  A failure of
  the stream is logged only, both in the loop and in \<^verbatim>\<open>io.ReadAll\<close>.
\<close>

function readLines :: "Tiddler \<Rightarrow> stream \<Rightarrow> Tiddler outcome" where
  "readLines tid s =
     (case ReadString s of (line, rerr, rest) \<Rightarrow>
        if reWhitespaceOnly line then
          (let b = fst (ReadAll rest)
           in Ok (if length b > 0 then tid(''text'' \<mapsto> VStr b) else tid))
        else
          (let idx = Index line (CHR '':'')
           in if idx < 0 then Panic SliceOutOfRange
              else
                (let name = take (nat idx) line;
                     val = TrimSpace (drop (nat (idx + 1)) line);
                     tid' = tid(name \<mapsto> VStr val)
                 in if rerr = Some EOF then Ok tid' else readLines tid' rest)))"
  by pat_completeness auto

lemma ReadString_shorter:
  assumes "ReadString s = (line, rerr, rest)" and "line \<noteq> []"
  shows "length (data rest) < length (data s)"
proof (cases "NL \<in> set (data s)")
  case True
  define d where "d = dropWhile (\<lambda>c. c \<noteq> NL) (data s)"
  have "rest = s\<lparr>data := drop 1 d\<rparr>"
    using assms(1) True by (simp add: ReadString_def d_def)
  then have rest: "data rest = drop 1 d"
    by simp
  have "length d \<le> length (data s)"
    unfolding d_def by (rule length_dropWhile_le)
  moreover have "d \<noteq> []"
    using True by (simp add: d_def)
  ultimately show ?thesis
    unfolding rest by (cases d) simp_all
next
  case False
  then have "rest = s\<lparr>data := []\<rparr>" and "line = data s"
    using assms(1) by (simp_all add: ReadString_def)
  then show ?thesis
    using assms(2) by simp
qed

termination readLines
  apply (relation "measure (\<lambda>(tid, s). length (data s))")
   apply simp
  apply (auto simp: reWhitespaceOnly_def dest!: ReadString_shorter [OF sym])
  done

declare readLines.simps [simp del]

text \<open>
  \<^verbatim>\<open>TiddlerFile.Read\<close>: a nil reader is refused; the map \<^verbatim>\<open>fields\<close> of the source is
  never filled, so its test \<^verbatim>\<open>len(fields) > 0\<close> never holds and is left out; a record
  without \<^verbatim>\<open>revision\<close> gets the revision \<^verbatim>\<open>"0"\<close>.
\<close>

definition TiddlerFile_Read :: "stream option \<Rightarrow> Tiddler outcome" where
  "TiddlerFile_Read r =
     (case r of
        None \<Rightarrow> Err ReaderIsNil
      | Some s \<Rightarrow>
          (case readLines Map.empty s of
             Ok tid \<Rightarrow>
               Ok (if tid ''revision'' = None then tid(''revision'' \<mapsto> VStr ''0'') else tid)
           | Err e \<Rightarrow> Err e
           | Panic p \<Rightarrow> Panic p))"

text \<open>
  \<^verbatim>\<open>getTiddlerFileTile\<close> scans the lines of the header for the first one that starts
  with \<^verbatim>\<open>title:\<close>.  Unlike \<^verbatim>\<open>TiddlerFile.Read\<close> it gives up on a failure of the stream,
  before it looks at the line.  An empty title is reported by \<^verbatim>\<open>fmt.Errorf("")\<close>.
\<close>

function peekLines :: "stream \<Rightarrow> string outcome" where
  "peekLines s =
     (case ReadString s of (line, rerr, rest) \<Rightarrow>
        if rerr \<noteq> None \<and> rerr \<noteq> Some EOF then Err (ErrorReadingLine (the rerr))
        else if reWhitespaceOnly line then Err TitleNotFound
        else if HasPrefix line ''title:'' then
          (let title = TrimSpace (drop (nat (Index line (CHR '':'') + 1)) line)
           in if title = [] then Err EmptyMessage else Ok title)
        else if rerr = Some EOF then Err TitleNotFound
        else peekLines rest)"
  by pat_completeness auto

termination peekLines
  apply (relation "measure (\<lambda>s. length (data s))")
   apply simp
  apply (auto simp: reWhitespaceOnly_def dest!: ReadString_shorter [OF sym])
  done

declare peekLines.simps [simp del]

definition getTiddlerFileTile :: "stream option \<Rightarrow> string outcome" where
  "getTiddlerFileTile f = (case f of None \<Rightarrow> Err ReaderIsNil | Some s \<Rightarrow> peekLines s)"

subsection \<open>The header of a stream, in the words of the format\<close>

text \<open>
  The header lines of a stream are its lines before the first line of white space only
  (the blank-line terminator) or the end of the stream; a header line \<^verbatim>\<open>name: value\<close>
  has the name before its first colon and the value after it, trimmed.  These
  definitions say what the format is; the theorems below relate the code to them.
\<close>

function headerLines :: "stream \<Rightarrow> string list" where
  "headerLines s =
     (case ReadString s of (line, rerr, rest) \<Rightarrow>
        if reWhitespaceOnly line then []
        else line # (if rerr = None then headerLines rest else []))"
  by pat_completeness auto

termination headerLines
  apply (relation "measure (\<lambda>s. length (data s))")
   apply simp
  apply (auto simp: reWhitespaceOnly_def dest!: ReadString_shorter [OF sym])
  done

declare headerLines.simps [simp del]

definition fieldName :: "string \<Rightarrow> string" where
  "fieldName line = takeWhile (\<lambda>c. c \<noteq> CHR '':'') line"

definition fieldValue :: "string \<Rightarrow> string" where
  "fieldValue line = TrimSpace (drop 1 (dropWhile (\<lambda>c. c \<noteq> CHR '':'') line))"

text \<open>
  \<^verbatim>\<open>TiddlerFile.Write\<close>.  \<^verbatim>\<open>range t.tid\<close> visits the fields in an order the runtime
  picks: \<open>ks\<close> is that order, the keys of the record one after the other.  Every
  \<^verbatim>\<open>v.(string)\<close> panics on a value that is no string, \<^verbatim>\<open>v.(map[string]interface{})\<close>
  on a \<^verbatim>\<open>fields\<close> value that is no object.  The buffer is handed to the writer in one
  call, which is the only source of an error.
\<close>

fun bindO :: "'a outcome \<Rightarrow> ('a \<Rightarrow> 'b outcome) \<Rightarrow> 'b outcome" where
  "bindO (Ok x) f = f x"
| "bindO (Err e) f = Err e"
| "bindO (Panic p) f = Panic p"

fun stringOf :: "fieldval \<Rightarrow> string outcome" where
  "stringOf (VStr x) = Ok x"
| "stringOf v = Panic TypeAssertion"

fun nestedLines :: "(string \<times> fieldval) list \<Rightarrow> string outcome" where
  "nestedLines [] = Ok []"
| "nestedLines ((f2, v2) # m) =
     bindO (stringOf v2) (\<lambda>x. bindO (nestedLines m) (\<lambda>bs. Ok (f2 @ '': '' @ x @ [NL] @ bs)))"

definition fieldLines :: "string \<Rightarrow> fieldval \<Rightarrow> string outcome" where
  "fieldLines f v =
     (if f = ''fields'' then (case v of VMap m \<Rightarrow> nestedLines m | _ \<Rightarrow> Panic TypeAssertion)
      else if f = ''text'' then Ok []
      else bindO (stringOf v) (\<lambda>x. Ok (f @ '': '' @ x @ [NL])))"

fun headerBytes :: "string list \<Rightarrow> Tiddler \<Rightarrow> string outcome" where
  "headerBytes [] tid = Ok []"
| "headerBytes (f # fs) tid =
     (case tid f of
        None \<Rightarrow> headerBytes fs tid
      | Some v \<Rightarrow> bindO (fieldLines f v) (\<lambda>b. bindO (headerBytes fs tid) (\<lambda>bs. Ok (b @ bs))))"

definition encode :: "string list \<Rightarrow> Tiddler \<Rightarrow> string outcome" where
  "encode ks tid =
     bindO (headerBytes ks tid) (\<lambda>hdr.
       bindO (case tid ''text'' of None \<Rightarrow> Ok [] | Some txt \<Rightarrow> stringOf txt) (\<lambda>txt.
         Ok (hdr @ [NL] @ txt)))"




section \<open>The store (shared functions of the three backends)\<close>

text \<open>
  A Go map is nil until it is made: a nil map reads as the empty map, \<^verbatim>\<open>delete\<close> leaves
  it alone, and an assignment to one of its entries panics.  A store opened without
  eager indexing has nil maps.
\<close>

datatype 'v gomap = NilMap | GoMap "string \<rightharpoonup> 'v"

fun mapGet :: "'v gomap \<Rightarrow> string \<Rightarrow> 'v option" where
  "mapGet NilMap k = None"
| "mapGet (GoMap m) k = m k"

text \<open>\<^verbatim>\<open>index[title]\<close> read as a value: the empty string when the title is no key.\<close>

definition fileOf :: "string gomap \<Rightarrow> string \<Rightarrow> string" where
  "fileOf index title = (case mapGet index title of Some f \<Rightarrow> f | None \<Rightarrow> [])"


fun mapDelete :: "'v gomap \<Rightarrow> string \<Rightarrow> 'v gomap" where
  "mapDelete NilMap k = NilMap"
| "mapDelete (GoMap m) k = GoMap (m(k := None))"

fun mapKeys :: "'v gomap \<Rightarrow> string set" where
  "mapKeys NilMap = {}"
| "mapKeys (GoMap m) = dom m"

text \<open>
  The primitives of a backend, as the shared functions receive them: a reader opens a
  location, a writer opens a location for writing and gives the function that takes the
  bytes, a walker enumerates locations.  The walkers of the three backends report an
  error, if at all, before they have enumerated anything, so a walk is either an error
  or the list of the locations it hands over.
\<close>

type_synonym reader = "string \<Rightarrow> error + stream"


type_synonym walker = "error + string list"

text \<open>
  \<^verbatim>\<open>reTiddlerFilename = `[/:"]`\<close>, each match replaced by an underscore, and
  \<^verbatim>\<open>reBinaryType = `/(pdf|gif|jpeg|png|x-icon)$`\<close>, which matches a string that ends with
  a slash and one of the five names.
\<close>

definition tiddlerFilename :: "string \<Rightarrow> string" where
  "tiddlerFilename title =
     map (\<lambda>c. if c \<in> {CHR ''/'', CHR '':'', CHR 0x22} then CHR ''_'' else c) title @ ''.tid''"

definition reBinaryType :: "string \<Rightarrow> bool" where
  "reBinaryType ty \<longleftrightarrow>
     list_ex (HasSuffix ty) [''/pdf'', ''/gif'', ''/jpeg'', ''/png'', ''/x-icon'']"

text \<open>
  \<^verbatim>\<open>readTiddlerFileWithReadCloser\<close>.  The second component of the result lists the
  locations the function asked the reader for, in order: its reads of the backend.
  The argument of the trace call, \<^verbatim>\<open>tfile.tid["type"].(string)\<close>, is evaluated whether
  or not tracing is on, and panics when the record has no \<^verbatim>\<open>type\<close>.
\<close>

definition readTiddlerFileWithReadCloser ::
    "string \<Rightarrow> reader \<Rightarrow> Tiddler outcome \<times> string list" where
  "readTiddlerFileWithReadCloser path reader =
     (case reader path of
        Inl e \<Rightarrow> (Err (CouldNotOpenFile path e), [path])
      | Inr f \<Rightarrow>
          (case TiddlerFile_Read (Some f) of
             Err e \<Rightarrow> (Err (CouldNotReadAsTiddler path e), [path])
           | Panic p \<Rightarrow> (Panic p, [path])
           | Ok tid \<Rightarrow>
               if HasSuffix path ''.meta'' then
                 (let nonMetaFilename = TrimSuffix path ''.meta''
                  in case reader nonMetaFilename of
                       Inl e \<Rightarrow> (Err (CouldNotOpenFile nonMetaFilename e), [path, nonMetaFilename])
                     | Inr mf \<Rightarrow>
                         (case ReadAll mf of
                            (b, Some e) \<Rightarrow>
                              (Err (CouldNotReadContents nonMetaFilename e),
                               [path, nonMetaFilename])
                          | (b, None) \<Rightarrow>
                              ((case tid ''type'' of
                                  Some (VStr ty) \<Rightarrow>
                                    if reBinaryType ty then Ok (tid(''text'' \<mapsto> VBytes b))
                                    else Ok (tid(''text'' \<mapsto> VStr b))
                                | _ \<Rightarrow> Panic TypeAssertion),
                               [path, nonMetaFilename])))
               else (Ok tid, [path])))"

text \<open>
  \<^verbatim>\<open>getTiddlerFileFromStore\<close>.  The location comes from the index, or from the title when
  the title is not indexed; the cache is then asked for that \<^emph>\<open>location\<close>.
\<close>

definition getTiddlerFileFromStore ::
    "string \<Rightarrow> string \<Rightarrow> string gomap \<Rightarrow> Tiddler gomap \<Rightarrow> reader
       \<Rightarrow> Tiddler outcome \<times> string list" where
  "getTiddlerFileFromStore title dir index cache reader =
     (let filename =
            (case mapGet index title of
               Some f \<Rightarrow> f
             | None \<Rightarrow> Join dir (tiddlerFilename title))
      in case mapGet cache filename of
           Some tiddler \<Rightarrow> (Ok tiddler, [])
         | None \<Rightarrow> readTiddlerFileWithReadCloser filename reader)"

text \<open>
  \<^verbatim>\<open>buildCacheAndIndex\<close>.  Fifteen workers take locations from a channel, decode them
  and insert title, location and record under one lock.  \<open>indexLoop\<close> runs the insertions
  in the order of the list it is given, which stands for the order the workers come to
  the lock in; every schedule is some order of the enumerated locations.  An error of
  the decoder is logged (the log is the third component) and leaves a nil record, in
  which no title is found.  A panic in a worker ends the program.
\<close>

fun indexLoop ::
    "reader \<Rightarrow> string list \<Rightarrow> (string \<rightharpoonup> string) \<Rightarrow> (string \<rightharpoonup> Tiddler) \<Rightarrow> error list
       \<Rightarrow> ((string \<rightharpoonup> string) \<times> (string \<rightharpoonup> Tiddler) \<times> error list) outcome" where
  "indexLoop reader [] index cache log = Ok (index, cache, log)"
| "indexLoop reader (path # paths) index cache log =
     (case fst (readTiddlerFileWithReadCloser path reader) of
        Panic p \<Rightarrow> Panic p
      | Err e \<Rightarrow> indexLoop reader paths index cache (log @ [e])
      | Ok tiddler \<Rightarrow>
          (case tiddler ''title'' of
             None \<Rightarrow> indexLoop reader paths index cache log
           | Some (VStr title) \<Rightarrow>
               indexLoop reader paths (index(title \<mapsto> path)) (cache(title \<mapsto> tiddler)) log
           | Some _ \<Rightarrow> Panic TypeAssertion))"

definition buildCacheAndIndex ::
    "walker \<Rightarrow> reader
       \<Rightarrow> ((string \<rightharpoonup> string) \<times> (string \<rightharpoonup> Tiddler) \<times> error list) outcome" where
  "buildCacheAndIndex walker reader =
     (case walker of
        Inl e \<Rightarrow> Err e
      | Inr paths \<Rightarrow> indexLoop reader paths Map.empty Map.empty [])"

text \<open>
  \<^verbatim>\<open>getAllTiddlerFilesFromStore\<close>.  A cache that is not empty is returned as it is, in
  the order \<open>ks\<close> in which \<^verbatim>\<open>range\<close> visits its keys.  Otherwise the workers decode the
  enumerated locations; here a record in which no title is found (the nil record after
  an error among them) makes the worker panic with the location.
\<close>

fun listLoop :: "reader \<Rightarrow> string list \<Rightarrow> Tiddler list \<Rightarrow> error list
    \<Rightarrow> (Tiddler list \<times> error list) outcome" where
  "listLoop reader [] tids log = Ok (tids, log)"
| "listLoop reader (path # paths) tids log =
     (case fst (readTiddlerFileWithReadCloser path reader) of
        Panic p \<Rightarrow> Panic p
      | Err e \<Rightarrow> Panic (ExplicitPanic path)
      | Ok tid \<Rightarrow>
          (case tid ''title'' of
             None \<Rightarrow> Panic (ExplicitPanic path)
           | Some _ \<Rightarrow> listLoop reader paths (tids @ [tid]) log))"

definition getAllTiddlerFilesFromStore ::
    "string list \<Rightarrow> Tiddler gomap \<Rightarrow> reader \<Rightarrow> walker
       \<Rightarrow> (Tiddler list \<times> error list) outcome" where
  "getAllTiddlerFilesFromStore ks cache reader walker =
     (if mapKeys cache \<noteq> {} then Ok (List.map_filter (mapGet cache) ks, [])
      else
        (case walker of
           Inl e \<Rightarrow> Err e
         | Inr paths \<Rightarrow> listLoop reader paths [] []))"


subsection \<open>The store and its methods\<close>

text \<open>
  The three stores hold the same four fields and their methods pass them to the shared
  functions with the primitives of the backend; the model takes the primitives as
  arguments.  \<^verbatim>\<open>DeleteTiddler\<close> is written three times in the source, each time as the
  removal call of the backend on \<^verbatim>\<open>s.tiddlerToFile[title]\<close> (the empty string for a title
  that is not indexed) followed by the two \<^verbatim>\<open>delete\<close>s; \<open>remove\<close> is that call, and the
  third component of the result lists the locations it was asked to remove.
\<close>

record store =
  baseDir :: string
  tiddlersDir :: string
  tiddlerToFile :: "string gomap"
  tiddlerCache :: "Tiddler gomap"

definition NewFileStore :: "string \<Rightarrow> bool \<Rightarrow> walker \<Rightarrow> reader \<Rightarrow> store outcome" where
  "NewFileStore dir requireIndex walk newReader =
     (if requireIndex then
        (case buildCacheAndIndex walk newReader of
           Err e \<Rightarrow> Err e
         | Panic p \<Rightarrow> Panic p
         | Ok (index, cache, log) \<Rightarrow>
             Ok \<lparr>baseDir = dir, tiddlersDir = Join dir ''tiddlers'',
                 tiddlerToFile = GoMap index, tiddlerCache = GoMap cache\<rparr>)
      else Ok \<lparr>baseDir = dir, tiddlersDir = Join dir ''tiddlers'',
               tiddlerToFile = NilMap, tiddlerCache = NilMap\<rparr>)"

definition GetTiddler :: "reader \<Rightarrow> store \<Rightarrow> string \<Rightarrow> Tiddler outcome \<times> string list" where
  "GetTiddler newReader s title =
     getTiddlerFileFromStore title (tiddlersDir s) (tiddlerToFile s) (tiddlerCache s) newReader"

definition GetAllTiddlers ::
    "string list \<Rightarrow> reader \<Rightarrow> walker \<Rightarrow> store \<Rightarrow> (Tiddler list \<times> error list) outcome" where
  "GetAllTiddlers ks newReader walk s =
     getAllTiddlerFilesFromStore ks (tiddlerCache s) newReader walk"


definition DeleteTiddler ::
    "(string \<Rightarrow> error option) \<Rightarrow> store \<Rightarrow> string \<Rightarrow> unit outcome \<times> store \<times> string list" where
  "DeleteTiddler remove s title =
     (let filename = fileOf (tiddlerToFile s) title
      in case remove filename of
           Some e \<Rightarrow> (Err e, s, [filename])
         | None \<Rightarrow>
             (Ok (),
              s\<lparr>tiddlerToFile := mapDelete (tiddlerToFile s) title,
                tiddlerCache := mapDelete (tiddlerCache s) title\<rparr>,
              [filename]))"

subsection \<open>A backend in memory\<close>

text \<open>
  For the examples: a backend that holds the objects of a table.  Its reader opens the
  objects of the table and no others; its removal succeeds on them and on no others
  (as \<^verbatim>\<open>os.Remove\<close> does, and as every backend does for the empty location).
\<close>

definition memReader :: "(string \<times> string) list \<Rightarrow> reader" where
  "memReader objs path =
     (case map_of objs path of
        None \<Rightarrow> Inl (BackendError ''no such file or directory'')
      | Some b \<Rightarrow> Inr \<lparr>data = b, ioerr = False\<rparr>)"

definition memRemove :: "(string \<times> string) list \<Rightarrow> string \<Rightarrow> error option" where
  "memRemove objs path =
     (case map_of objs path of
        None \<Rightarrow> Some (BackendError ''no such file or directory'')
      | Some b \<Rightarrow> None)"

subsection \<open>Notions used to state the properties of the bulk enumeration\<close>

text \<open>
  The errors the index construction logs for a list of locations, in order; the titles
  of the locations that decode to a titled record; and the relation between an index
  and a cache in which every indexed title has a location among \<open>P\<close> that decodes to the
  record the cache holds for the title.  \<open>allStr\<close> says that every value of a record is
  a string.
\<close>

definition loggedErrors :: "reader \<Rightarrow> string list \<Rightarrow> error list" where
  "loggedErrors reader paths =
     List.map_filter
       (\<lambda>p. case fst (readTiddlerFileWithReadCloser p reader) of
               Err e \<Rightarrow> Some e | Ok t \<Rightarrow> None | Panic q \<Rightarrow> None) paths"

definition allStr :: "Tiddler \<Rightarrow> bool" where
  "allStr tid \<longleftrightarrow> (\<forall>k v. tid k = Some v \<longrightarrow> (\<exists>x. v = VStr x))"

definition titlesOf :: "reader \<Rightarrow> string list \<Rightarrow> string set" where
  "titlesOf reader paths =
     {t. \<exists>p \<in> set paths. \<exists>tid. fst (readTiddlerFileWithReadCloser p reader) = Ok tid
            \<and> tid ''title'' = Some (VStr t)}"

definition indexedFrom :: "reader \<Rightarrow> string set \<Rightarrow> (string \<rightharpoonup> string) \<Rightarrow> (string \<rightharpoonup> Tiddler) \<Rightarrow> bool" where
  "indexedFrom reader P index cache \<longleftrightarrow>
     (\<forall>t p. index t = Some p \<longrightarrow>
        p \<in> P \<and> (\<exists>tid. fst (readTiddlerFileWithReadCloser p reader) = Ok tid
                    \<and> tid ''title'' = Some (VStr t) \<and> cache t = Some tid))"

subsection \<open>The stores that eager indexing and the store's own operations produce\<close>



subsection \<open>Records that the line encoding can carry\<close>

text \<open>
  The line encoding neither quotes nor escapes.  A record is line-encodable when every
  value is a string; \<^verbatim>\<open>text\<close>, if present, is not empty; and every other field has a name
  without colon or newline, other than \<^verbatim>\<open>fields\<close>, and a value without newline that
  \<^verbatim>\<open>strings.TrimSpace\<close> leaves as it is.
\<close>

definition lineEncodable :: "Tiddler \<Rightarrow> bool" where
  "lineEncodable t \<longleftrightarrow>
     (\<forall>k v. t k = Some v \<longrightarrow>
        (\<exists>x. v = VStr x \<and>
          (if k = ''text'' then x \<noteq> []
           else k \<noteq> ''fields'' \<and> CHR '':'' \<notin> set k \<and> NL \<notin> set k
                \<and> NL \<notin> set x \<and> TrimSpace x = x)))"

section \<open>Properties of the line decoder\<close>

lemma Index_neg_iff: "Index line c < 0 \<longleftrightarrow> c \<notin> set line"
  by (simp add: Index_def)

lemma Index_take:
  assumes "c \<in> set line"
  shows "take (nat (Index line c)) line = takeWhile (\<lambda>x. x \<noteq> c) line"
proof -
  have "take (length (takeWhile (\<lambda>x. x \<noteq> c) line)) line = takeWhile (\<lambda>x. x \<noteq> c) line"
    by (rule takeWhile_eq_take [symmetric])
  then show ?thesis
    using assms by (simp add: Index_def)
qed

lemma Index_drop:
  assumes "c \<in> set line"
  shows "drop (nat (Index line c + 1)) line = drop 1 (dropWhile (\<lambda>x. x \<noteq> c) line)"
proof -
  let ?n = "length (takeWhile (\<lambda>x. x \<noteq> c) line)"
  have "nat (Index line c + 1) = Suc ?n"
    using assms by (simp add: Index_def)
  then have "drop (nat (Index line c + 1)) line = drop 1 (drop ?n line)"
    by simp
  also have "drop ?n line = dropWhile (\<lambda>x. x \<noteq> c) line"
    by (rule dropWhile_eq_drop [symmetric])
  finally show ?thesis .
qed

lemma readLines_unfold:
  assumes "ReadString s = (line, rerr, rest)"
  shows "readLines tid s =
     (if reWhitespaceOnly line then
        Ok (if data rest \<noteq> [] then tid(''text'' \<mapsto> VStr (data rest)) else tid)
      else if CHR '':'' \<notin> set line then Panic SliceOutOfRange
      else if rerr = Some EOF then Ok (tid(fieldName line \<mapsto> VStr (fieldValue line)))
      else readLines (tid(fieldName line \<mapsto> VStr (fieldValue line))) rest)"
  using assms
  by (subst readLines.simps)
     (simp add: Let_def ReadAll_def fieldName_def fieldValue_def Index_neg_iff Index_take
        Index_drop)

lemma headerLines_unfold:
  assumes "ReadString s = (line, rerr, rest)"
  shows "headerLines s =
     (if reWhitespaceOnly line then []
      else line # (if rerr = None then headerLines rest else []))"
  using assms by (subst headerLines.simps) simp

text \<open>
  Claim C8.  The line decoder is not total: when the first line of the stream is not a
  line of white space only and has no colon, \<^verbatim>\<open>strings.Index\<close> gives \<open>-1\<close> and the
  slice expression \<^verbatim>\<open>line[:idx]\<close> panics; \<^verbatim>\<open>TiddlerFile.Read\<close> returns no error.
\<close>

theorem Read_panics_without_colon:
  assumes "ReadString s = (line, rerr, rest)"
    and "\<not> reWhitespaceOnly line" and "CHR '':'' \<notin> set line"
  shows "TiddlerFile_Read (Some s) = Panic SliceOutOfRange"
  using assms by (simp add: TiddlerFile_Read_def readLines_unfold)

theorem Read_panics_without_colon_witness:
  "ReadString \<lparr>data = ''abc'' @ [NL], ioerr = False\<rparr>
     = (''abc'' @ [NL], None, \<lparr>data = [], ioerr = False\<rparr>)
   \<and> \<not> reWhitespaceOnly (''abc'' @ [NL])
   \<and> CHR '':'' \<notin> set (''abc'' @ [NL])
   \<and> TiddlerFile_Read (Some \<lparr>data = ''abc'' @ [NL], ioerr = False\<rparr>)
     = Panic SliceOutOfRange"
proof -
  have h1: "ReadString \<lparr>data = ''abc'' @ [NL], ioerr = False\<rparr>
     = (''abc'' @ [NL], None, \<lparr>data = [], ioerr = False\<rparr>)"
    by (simp add: ReadString_def NL_def)
  have h2: "\<not> reWhitespaceOnly (''abc'' @ [NL])"
    by (simp add: reWhitespaceOnly_def reSpaceClass_def)
  have h3: "CHR '':'' \<notin> set (''abc'' @ [NL])"
    by (simp add: NL_def)
  show ?thesis
    using h1 h2 h3 Read_panics_without_colon [OF h1 h2 h3] by simp
qed

lemma ReadString_error_rest:
  assumes "ReadString s = (line, Some e, rest)"
  shows "data rest = []"
  using assms by (auto simp: ReadString_def split: if_splits)

lemma ReadString_empty:
  assumes "data s = []"
  shows "ReadString s = ([], Some (if ioerr s then IOFailure else EOF), s)"
  using assms by (simp add: ReadString_def)

lemma readLines_empty: "data s = [] \<Longrightarrow> readLines tid s = Ok tid"
  by (simp add: readLines_unfold [OF ReadString_empty] reWhitespaceOnly_def)

lemma headerLines_empty: "data s = [] \<Longrightarrow> headerLines s = []"
  by (simp add: headerLines_unfold [OF ReadString_empty] reWhitespaceOnly_def)

lemma headerLines_step:
  assumes "ReadString s = (line, rerr, rest)"
  shows "headerLines s = (if reWhitespaceOnly line then [] else line # headerLines rest)"
proof (cases rerr)
  case None
  then show ?thesis
    using assms by (simp add: headerLines_unfold)
next
  case (Some e)
  then have "headerLines rest = []"
    using assms by (simp add: headerLines_empty ReadString_error_rest)
  then show ?thesis
    using assms Some by (simp add: headerLines_unfold)
qed

lemma readLines_step:
  assumes "ReadString s = (line, rerr, rest)"
  shows "readLines tid s =
     (if reWhitespaceOnly line then
        Ok (if data rest \<noteq> [] then tid(''text'' \<mapsto> VStr (data rest)) else tid)
      else if CHR '':'' \<notin> set line then Panic SliceOutOfRange
      else readLines (tid(fieldName line \<mapsto> VStr (fieldValue line))) rest)"
proof (cases "rerr = Some EOF")
  case True
  then have "data rest = []"
    using assms by (simp add: ReadString_error_rest)
  then show ?thesis
    using assms True by (simp add: readLines_unfold readLines_empty)
next
  case False
  then show ?thesis
    using assms by (simp add: readLines_unfold)
qed

lemma readLines_total:
  assumes "\<forall>l \<in> set (headerLines s). CHR '':'' \<in> set l"
  shows "\<exists>tid'. readLines tid s = Ok tid'"
  using assms
proof (induction "length (data s)" arbitrary: s tid rule: less_induct)
  case less
  obtain line rerr rest where rs: "ReadString s = (line, rerr, rest)"
    by (metis prod_cases3)
  show ?case
  proof (cases "reWhitespaceOnly line")
    case True
    then show ?thesis
      by (simp add: readLines_step [OF rs])
  next
    case False
    then have "line \<noteq> []"
      by (auto simp: reWhitespaceOnly_def)
    then have shorter: "length (data rest) < length (data s)"
      using rs by (rule ReadString_shorter [rotated])
    have hl: "headerLines s = line # headerLines rest"
      using False by (simp add: headerLines_step [OF rs])
    have "\<exists>tid'. readLines (tid(fieldName line \<mapsto> VStr (fieldValue line))) rest = Ok tid'"
      using less.prems hl by (intro less.hyps [OF shorter]) simp
    moreover have "CHR '':'' \<in> set line"
      using less.prems hl by simp
    ultimately show ?thesis
      using False by (simp add: readLines_step [OF rs])
  qed
qed

lemma readLines_field:
  assumes "readLines tid s = Ok tid'" and "k \<noteq> ''text''"
  shows "tid' k =
    (case filter (\<lambda>l. fieldName l = k) (headerLines s) of
       [] \<Rightarrow> tid k
     | l # ls \<Rightarrow> Some (VStr (fieldValue (last (l # ls)))))"
  using assms
proof (induction "length (data s)" arbitrary: s tid rule: less_induct)
  case less
  obtain line rerr rest where rs: "ReadString s = (line, rerr, rest)"
    by (metis prod_cases3)
  show ?case
  proof (cases "reWhitespaceOnly line")
    case True
    then show ?thesis
      using less.prems by (auto simp: readLines_step [OF rs] headerLines_step [OF rs])
  next
    case False
    then have "line \<noteq> []"
      by (auto simp: reWhitespaceOnly_def)
    then have shorter: "length (data rest) < length (data s)"
      using rs by (rule ReadString_shorter [rotated])
    have hl: "headerLines s = line # headerLines rest"
      using False by (simp add: headerLines_step [OF rs])
    let ?tid = "tid(fieldName line \<mapsto> VStr (fieldValue line))"
    have run: "readLines ?tid rest = Ok tid'"
      using less.prems(1) False by (simp add: readLines_step [OF rs] split: if_splits)
    have IH: "tid' k =
      (case filter (\<lambda>l. fieldName l = k) (headerLines rest) of
         [] \<Rightarrow> ?tid k
       | l # ls \<Rightarrow> Some (VStr (fieldValue (last (l # ls)))))"
      using shorter run less.prems(2) by (rule less.hyps)
    show ?thesis
      unfolding hl IH by (simp split: list.splits)
  qed
qed

text \<open>
  Claim C10.  A stream is line-encoded when each of its header lines has a colon.
  Decoding such a stream returns a record, and its \<^verbatim>\<open>revision\<close> is \<^verbatim>\<open>"0"\<close> when no header
  line has the name \<^verbatim>\<open>revision\<close>; otherwise it is the (trimmed) value of the last header
  line of that name: the value the input carries is kept.
\<close>

theorem Read_revision_default:
  assumes "\<forall>l \<in> set (headerLines s). CHR '':'' \<in> set l"
  shows "\<exists>tid. TiddlerFile_Read (Some s) = Ok tid \<and>
     tid ''revision'' = Some (VStr
       (case filter (\<lambda>l. fieldName l = ''revision'') (headerLines s) of
          [] \<Rightarrow> ''0''
        | l # ls \<Rightarrow> fieldValue (last (l # ls))))"
proof -
  obtain tid' where run: "readLines Map.empty s = Ok tid'"
    using readLines_total [OF assms] by blast
  have "tid' ''revision'' =
    (case filter (\<lambda>l. fieldName l = ''revision'') (headerLines s) of
       [] \<Rightarrow> None
     | l # ls \<Rightarrow> Some (VStr (fieldValue (last (l # ls)))))"
    using readLines_field [OF run, of "''revision''"] by simp
  then show ?thesis
    by (simp add: TiddlerFile_Read_def run split: list.splits)
qed

theorem Read_revision_default_witness:
  "headerLines \<lparr>data = ''title: A'' @ [NL] @ [NL] @ ''hi'', ioerr = False\<rparr>
     = [''title: A'' @ [NL]]
   \<and> (\<exists>tid. TiddlerFile_Read (Some \<lparr>data = ''title: A'' @ [NL] @ [NL] @ ''hi'', ioerr = False\<rparr>)
          = Ok tid \<and> tid ''revision'' = Some (VStr ''0''))
   \<and> headerLines \<lparr>data = ''revision:  7 '' @ [NL] @ ''title: A'', ioerr = False\<rparr>
     = [''revision:  7 '' @ [NL], ''title: A'']
   \<and> (\<exists>tid. TiddlerFile_Read (Some \<lparr>data = ''revision:  7 '' @ [NL] @ ''title: A'', ioerr = False\<rparr>)
          = Ok tid \<and> tid ''revision'' = Some (VStr ''7''))"
proof -
  let ?s = "\<lparr>data = ''title: A'' @ [NL] @ [NL] @ ''hi'', ioerr = False\<rparr>"
  let ?r = "\<lparr>data = ''revision:  7 '' @ [NL] @ ''title: A'', ioerr = False\<rparr>"
  have ls: "headerLines ?s = [''title: A'' @ [NL]]"
    by code_simp
  have lr: "headerLines ?r = [''revision:  7 '' @ [NL], ''title: A'']"
    by code_simp
  have hs: "\<forall>l \<in> set (headerLines ?s). CHR '':'' \<in> set l"
    by code_simp
  have fs: "filter (\<lambda>l. fieldName l = ''revision'') (headerLines ?s) = []"
    by code_simp
  have hr: "\<forall>l \<in> set (headerLines ?r). CHR '':'' \<in> set l"
    by code_simp
  have fr: "(case filter (\<lambda>l. fieldName l = ''revision'') (headerLines ?r) of
          [] \<Rightarrow> ''0''
        | l # ls \<Rightarrow> fieldValue (last (l # ls))) = ''7''"
    by code_simp
  have "\<exists>tid. TiddlerFile_Read (Some ?s) = Ok tid \<and> tid ''revision'' = Some (VStr ''0'')"
    using Read_revision_default [OF hs] unfolding fs by simp
  moreover have "\<exists>tid. TiddlerFile_Read (Some ?r) = Ok tid \<and> tid ''revision'' = Some (VStr ''7'')"
    using Read_revision_default [OF hr] unfolding fr by simp
  ultimately show ?thesis
    using ls lr by simp
qed

lemma peekLines_unfold:
  assumes "ReadString s = (line, rerr, rest)"
  shows "peekLines s =
     (if rerr \<noteq> None \<and> rerr \<noteq> Some EOF then Err (ErrorReadingLine (the rerr))
      else if reWhitespaceOnly line then Err TitleNotFound
      else if HasPrefix line ''title:'' then
        (if fieldValue line = [] then Err EmptyMessage else Ok (fieldValue line))
      else if rerr = Some EOF then Err TitleNotFound
      else peekLines rest)"
proof -
  have "CHR '':'' \<in> set line" if "HasPrefix line ''title:''"
  proof -
    have eq: "take (length ''title:'') line = ''title:''"
      using that unfolding HasPrefix_def .
    have "CHR '':'' \<in> set ''title:''"
      by simp
    then have "CHR '':'' \<in> set (take (length ''title:'') line)"
      by (simp only: eq)
    then show ?thesis
      by (rule in_set_takeD)
  qed
  then show ?thesis
    using assms
    by (subst peekLines.simps) (simp add: Let_def fieldValue_def Index_drop)
qed

text \<open>
  Claim C9.  The title peek looks at header lines only.  On a stream that ends without
  a failure of the medium it finds the first header line that starts with \<^verbatim>\<open>title:\<close>:
  if there is none before the blank line or the end of the stream, it fails with
  \<^verbatim>\<open>title not found\<close> (NotFound); if the value of that line is empty, it fails with the
  error of empty message (Invalid); otherwise it returns the value, trimmed.  So for a
  first line \<^verbatim>\<open>title: Foo\<close> it returns \<^verbatim>\<open>Foo\<close>, as the second theorem evaluates.
\<close>

theorem peek_title:
  assumes "\<not> ioerr s"
  shows "getTiddlerFileTile (Some s) =
     (case find (\<lambda>l. HasPrefix l ''title:'') (headerLines s) of
        None \<Rightarrow> Err TitleNotFound
      | Some l \<Rightarrow> if fieldValue l = [] then Err EmptyMessage else Ok (fieldValue l))"
  using assms
proof (induction "length (data s)" arbitrary: s rule: less_induct)
  case less
  obtain line rerr rest where rs: "ReadString s = (line, rerr, rest)"
    by (metis prod_cases3)
  have rerr: "rerr = None \<or> rerr = Some EOF" and rest: "\<not> ioerr rest"
    using rs less.prems by (auto simp: ReadString_def split: if_splits)
  show ?case
  proof (cases "reWhitespaceOnly line")
    case True
    then show ?thesis
      using rerr by (auto simp: getTiddlerFileTile_def peekLines_unfold [OF rs] headerLines_step [OF rs])
  next
    case False
    then have "line \<noteq> []"
      by (auto simp: reWhitespaceOnly_def)
    then have shorter: "length (data rest) < length (data s)"
      using rs by (rule ReadString_shorter [rotated])
    have hl: "headerLines s = line # headerLines rest"
      using False by (simp add: headerLines_step [OF rs])
    have IH: "getTiddlerFileTile (Some rest) =
     (case find (\<lambda>l. HasPrefix l ''title:'') (headerLines rest) of
        None \<Rightarrow> Err TitleNotFound
      | Some l \<Rightarrow> if fieldValue l = [] then Err EmptyMessage else Ok (fieldValue l))"
      using shorter rest by (rule less.hyps)
    show ?thesis
    proof (cases "rerr = Some EOF")
      case True
      then have "headerLines rest = []"
        using rs by (simp add: headerLines_empty ReadString_error_rest)
      then show ?thesis
        using False True by (simp add: getTiddlerFileTile_def peekLines_unfold [OF rs] hl)
    next
      case F: False
      then have "rerr = None"
        using rerr by simp
      then show ?thesis
        using False IH by (simp add: getTiddlerFileTile_def peekLines_unfold [OF rs] hl)
    qed
  qed
qed

theorem peek_title_witness:
  "\<not> ioerr \<lparr>data = ''title: Foo'' @ [NL] @ [NL] @ ''body'', ioerr = False\<rparr>
   \<and> getTiddlerFileTile (Some \<lparr>data = ''title: Foo'' @ [NL] @ [NL] @ ''body'', ioerr = False\<rparr>)
     = Ok ''Foo''
   \<and> getTiddlerFileTile (Some \<lparr>data = ''tags: x'' @ [NL] @ [NL] @ ''title: Foo'', ioerr = False\<rparr>)
     = Err TitleNotFound
   \<and> getTiddlerFileTile (Some \<lparr>data = ''tags: x'' @ [NL] @ ''title:  '' @ [NL], ioerr = False\<rparr>)
     = Err EmptyMessage"
proof -
  let ?a = "\<lparr>data = ''title: Foo'' @ [NL] @ [NL] @ ''body'', ioerr = False\<rparr>"
  let ?b = "\<lparr>data = ''tags: x'' @ [NL] @ [NL] @ ''title: Foo'', ioerr = False\<rparr>"
  let ?c = "\<lparr>data = ''tags: x'' @ [NL] @ ''title:  '' @ [NL], ioerr = False\<rparr>"
  have a: "(case find (\<lambda>l. HasPrefix l ''title:'') (headerLines ?a) of
        None \<Rightarrow> Err TitleNotFound
      | Some l \<Rightarrow> if fieldValue l = [] then Err EmptyMessage else Ok (fieldValue l)) = Ok ''Foo''"
    by code_simp
  have b: "(case find (\<lambda>l. HasPrefix l ''title:'') (headerLines ?b) of
        None \<Rightarrow> Err TitleNotFound
      | Some l \<Rightarrow> if fieldValue l = [] then Err EmptyMessage else Ok (fieldValue l))
      = Err TitleNotFound"
    by code_simp
  have c: "(case find (\<lambda>l. HasPrefix l ''title:'') (headerLines ?c) of
        None \<Rightarrow> Err TitleNotFound
      | Some l \<Rightarrow> if fieldValue l = [] then Err EmptyMessage else Ok (fieldValue l))
      = Err EmptyMessage"
    by code_simp
  have "\<not> ioerr ?a" and "\<not> ioerr ?b" and "\<not> ioerr ?c"
    by simp_all
  then show ?thesis
    using peek_title [of ?a] peek_title [of ?b] peek_title [of ?c]
    unfolding a b c by simp
qed

section \<open>Properties of the store\<close>

lemma case_OkD:
  "(case x of Ok a \<Rightarrow> P a | Err e \<Rightarrow> False | Panic p \<Rightarrow> False) \<Longrightarrow> \<exists>a. x = Ok a \<and> P a"
  by (cases x) auto

lemma case_ErrD:
  "(case x of Ok a \<Rightarrow> False | Err e \<Rightarrow> P e | Panic p \<Rightarrow> False) \<Longrightarrow> \<exists>e. x = Err e \<and> P e"
  by (cases x) auto

lemma case_PanicD:
  "(case x of Ok a \<Rightarrow> False | Err e \<Rightarrow> False | Panic p \<Rightarrow> P p) \<Longrightarrow> \<exists>p. x = Panic p \<and> P p"
  by (cases x) auto

text \<open>
  Claim C1.  For a store built with eager indexing, \<^verbatim>\<open>GetTiddler\<close> of a title that is in
  the cache is to return the cached record without a read of the backend.  The cache
  is keyed by title (\<open>indexLoop\<close>, \<open>writeTiddlerToWriter\<close>), but
  \<open>getTiddlerFileFromStore\<close> asks it for the location that the index gives for the
  title.  The theorem evaluates the store that eager indexing builds from one object
  holding the record titled \<^verbatim>\<open>A\<close>: the title is in the index and in the cache, yet
  \<^verbatim>\<open>GetTiddler\<close> reads the location from the backend once; and when the object has gone
  from the backend, \<^verbatim>\<open>GetTiddler\<close> fails although the record is cached.
\<close>

theorem GetTiddler_reads_backend_for_cached_title:
  "\<exists>s. NewFileStore ''wiki'' True (Inr [''wiki/tiddlers/A.tid''])
          (memReader [(''wiki/tiddlers/A.tid'', ''title: A'' @ [NL] @ [NL] @ ''hello'')]) = Ok s
     \<and> mapGet (tiddlerToFile s) ''A'' = Some ''wiki/tiddlers/A.tid''
     \<and> mapGet (tiddlerCache s) ''A'' \<noteq> None
     \<and> snd (GetTiddler
              (memReader [(''wiki/tiddlers/A.tid'', ''title: A'' @ [NL] @ [NL] @ ''hello'')])
              s ''A'') = [''wiki/tiddlers/A.tid'']
     \<and> GetTiddler (memReader []) s ''A''
         = (Err (CouldNotOpenFile ''wiki/tiddlers/A.tid''
                   (BackendError ''no such file or directory'')),
            [''wiki/tiddlers/A.tid''])"
proof -
  have "case NewFileStore ''wiki'' True (Inr [''wiki/tiddlers/A.tid''])
          (memReader [(''wiki/tiddlers/A.tid'', ''title: A'' @ [NL] @ [NL] @ ''hello'')]) of
     Ok s \<Rightarrow>
       mapGet (tiddlerToFile s) ''A'' = Some ''wiki/tiddlers/A.tid''
     \<and> mapGet (tiddlerCache s) ''A'' \<noteq> None
     \<and> snd (GetTiddler
              (memReader [(''wiki/tiddlers/A.tid'', ''title: A'' @ [NL] @ [NL] @ ''hello'')])
              s ''A'') = [''wiki/tiddlers/A.tid'']
     \<and> (case fst (GetTiddler (memReader []) s ''A'') of
          Ok t \<Rightarrow> False
        | Err e \<Rightarrow> e = CouldNotOpenFile ''wiki/tiddlers/A.tid''
                   (BackendError ''no such file or directory'')
        | Panic p \<Rightarrow> False)
     \<and> snd (GetTiddler (memReader []) s ''A'') = [''wiki/tiddlers/A.tid'']
   | Err e \<Rightarrow> False
   | Panic p \<Rightarrow> False"
    by code_simp
  from case_OkD [OF this] obtain s where
    "NewFileStore ''wiki'' True (Inr [''wiki/tiddlers/A.tid''])
          (memReader [(''wiki/tiddlers/A.tid'', ''title: A'' @ [NL] @ [NL] @ ''hello'')]) = Ok s"
    and "mapGet (tiddlerToFile s) ''A'' = Some ''wiki/tiddlers/A.tid''"
    and "mapGet (tiddlerCache s) ''A'' \<noteq> None"
    and "snd (GetTiddler
              (memReader [(''wiki/tiddlers/A.tid'', ''title: A'' @ [NL] @ [NL] @ ''hello'')])
              s ''A'') = [''wiki/tiddlers/A.tid'']"
    and e: "case fst (GetTiddler (memReader []) s ''A'') of
          Ok t \<Rightarrow> False
        | Err e \<Rightarrow> e = CouldNotOpenFile ''wiki/tiddlers/A.tid''
                   (BackendError ''no such file or directory'')
        | Panic p \<Rightarrow> False"
    and "snd (GetTiddler (memReader []) s ''A'') = [''wiki/tiddlers/A.tid'']"
    by blast
  moreover have "GetTiddler (memReader []) s ''A''
         = (Err (CouldNotOpenFile ''wiki/tiddlers/A.tid''
                   (BackendError ''no such file or directory'')),
            [''wiki/tiddlers/A.tid''])"
    using case_ErrD [OF e] calculation(6) by (auto simp: prod_eq_iff)
  ultimately show ?thesis
    by blast
qed

text \<open>
  In general: whenever the location that the index gives for a title is no title of
  the cache, \<^verbatim>\<open>GetTiddler\<close> decodes that location from the backend, whether or not the
  title itself is cached; and decoding always asks the reader at least once.
\<close>

lemma GetTiddler_asks_cache_for_location:
  assumes "mapGet (tiddlerToFile s) title = Some f" and "mapGet (tiddlerCache s) f = None"
  shows "GetTiddler newReader s title = readTiddlerFileWithReadCloser f newReader"
  using assms by (simp add: GetTiddler_def getTiddlerFileFromStore_def)

lemma readTiddlerFileWithReadCloser_reads:
  "hd (snd (readTiddlerFileWithReadCloser path reader)) = path
   \<and> snd (readTiddlerFileWithReadCloser path reader) \<noteq> []"
  by (simp add: readTiddlerFileWithReadCloser_def Let_def
      split: sum.splits outcome.splits prod.splits option.splits)

text \<open>
  Claim C7.  For a location that ends with \<^verbatim>\<open>.meta\<close> the decoder reads the location
  without the suffix and puts its bytes into \<^verbatim>\<open>text\<close>: as bytes when \<^verbatim>\<open>type\<close> matches the
  binary pattern, as a string otherwise.  \<open>sidecar_text\<close> and \<open>sidecar_png_bytes\<close> below
  show this for a record that has a \<^verbatim>\<open>type\<close>.  A record without \<^verbatim>\<open>type\<close> is among the
  "otherwise", but for it the assertion \<^verbatim>\<open>tfile.tid["type"].(string)\<close> panics after both
  locations have been read, as the theorem evaluates.
\<close>

theorem sidecar_without_type_panics:
  "readTiddlerFileWithReadCloser ''img/a.png.meta''
     (memReader [(''img/a.png.meta'', ''title: a.png'' @ [NL]),
                 (''img/a.png'', [CHR 0xFF, CHR 0xD8])])
   = (Panic TypeAssertion, [''img/a.png.meta'', ''img/a.png''])"
proof -
  let ?r = "readTiddlerFileWithReadCloser ''img/a.png.meta''
     (memReader [(''img/a.png.meta'', ''title: a.png'' @ [NL]),
                 (''img/a.png'', [CHR 0xFF, CHR 0xD8])])"
  have "case fst ?r of Ok t \<Rightarrow> False | Err e \<Rightarrow> False | Panic p \<Rightarrow> p = TypeAssertion"
    by code_simp
  moreover have "snd ?r = [''img/a.png.meta'', ''img/a.png'']"
    by code_simp
  ultimately show ?thesis
    by (auto simp: prod_eq_iff dest: case_PanicD)
qed

lemma sidecar_text:
  assumes "HasSuffix path ''.meta''"
    and "reader path = Inr f" and "TiddlerFile_Read (Some f) = Ok tid"
    and "tid ''type'' = Some (VStr ty)"
    and "reader (TrimSuffix path ''.meta'') = Inr mf" and "\<not> ioerr mf"
  shows "readTiddlerFileWithReadCloser path reader =
     (Ok (tid(''text'' \<mapsto> (if reBinaryType ty then VBytes (data mf) else VStr (data mf)))),
      [path, TrimSuffix path ''.meta''])"
  using assms by (simp add: readTiddlerFileWithReadCloser_def ReadAll_def)

lemma sidecar_png_bytes:
  "\<exists>tid. readTiddlerFileWithReadCloser ''img/a.png.meta''
     (memReader [(''img/a.png.meta'', ''title: a.png'' @ [NL] @ ''type: image/png'' @ [NL]),
                 (''img/a.png'', [CHR 0xFF, CHR 0xD8])])
       = (Ok tid, [''img/a.png.meta'', ''img/a.png''])
     \<and> tid ''text'' = Some (VBytes [CHR 0xFF, CHR 0xD8])"
proof -
  let ?r = "readTiddlerFileWithReadCloser ''img/a.png.meta''
     (memReader [(''img/a.png.meta'', ''title: a.png'' @ [NL] @ ''type: image/png'' @ [NL]),
                 (''img/a.png'', [CHR 0xFF, CHR 0xD8])])"
  have "case fst ?r of
      Ok tid \<Rightarrow> tid ''text'' = Some (VBytes [CHR 0xFF, CHR 0xD8])
    | Err e \<Rightarrow> False | Panic p \<Rightarrow> False"
    by code_simp
  moreover have "snd ?r = [''img/a.png.meta'', ''img/a.png'']"
    by code_simp
  ultimately show ?thesis
    by (auto simp: prod_eq_iff dest: case_OkD)
qed

text \<open>
  Claim C2, as stated, has \<^verbatim>\<open>DeleteTiddler\<close> fall back to the canonical file name of a
  title that is not indexed.  None of the three methods does: each hands
  \<^verbatim>\<open>s.tiddlerToFile[title]\<close> to the backend, the empty location for such a title.  In the
  store indexed from the object \<^verbatim>\<open>wiki/tiddlers/B.tid\<close>, which holds the record titled
  \<^verbatim>\<open>A\<close>, the title \<^verbatim>\<open>B\<close> is not indexed and its canonical location exists and could be
  removed; \<^verbatim>\<open>DeleteTiddler\<close> asks for the removal of the empty location and fails.
\<close>

theorem DeleteTiddler_no_canonical_fallback:
  "\<exists>s. NewFileStore ''wiki'' True (Inr [''wiki/tiddlers/B.tid''])
          (memReader [(''wiki/tiddlers/B.tid'', ''title: A'' @ [NL])]) = Ok s
     \<and> mapGet (tiddlerToFile s) ''B'' = None
     \<and> Join (tiddlersDir s) (tiddlerFilename ''B'') = ''wiki/tiddlers/B.tid''
     \<and> memRemove [(''wiki/tiddlers/B.tid'', ''title: A'' @ [NL])] ''wiki/tiddlers/B.tid'' = None
     \<and> DeleteTiddler (memRemove [(''wiki/tiddlers/B.tid'', ''title: A'' @ [NL])]) s ''B''
         = (Err (BackendError ''no such file or directory''), s, [[]])"
proof -
  have "case NewFileStore ''wiki'' True (Inr [''wiki/tiddlers/B.tid''])
          (memReader [(''wiki/tiddlers/B.tid'', ''title: A'' @ [NL])]) of
     Ok s \<Rightarrow>
       mapGet (tiddlerToFile s) ''B'' = None
     \<and> Join (tiddlersDir s) (tiddlerFilename ''B'') = ''wiki/tiddlers/B.tid''
     \<and> memRemove [(''wiki/tiddlers/B.tid'', ''title: A'' @ [NL])] ''wiki/tiddlers/B.tid'' = None
     \<and> memRemove [(''wiki/tiddlers/B.tid'', ''title: A'' @ [NL])] []
         = Some (BackendError ''no such file or directory'')
   | Err e \<Rightarrow> False
   | Panic p \<Rightarrow> False"
    by code_simp
  from case_OkD [OF this] show ?thesis
    by (auto simp: DeleteTiddler_def Let_def fileOf_def)
qed

lemma mapDelete_key: "title \<notin> mapKeys (mapDelete m title)"
  by (cases m) simp_all

lemma mapDelete_other: "k \<noteq> title \<Longrightarrow> mapGet (mapDelete m title) k = mapGet m k"
  by (cases m) simp_all

text \<open>
  Claim C2, amended.  \<^verbatim>\<open>DeleteTiddler\<close> asks the backend once, for the removal of the
  location the index holds for the title (the empty location when the title is not
  indexed).  When that removal succeeds, the title is removed from index and cache,
  whatever they held, and no other title is touched; when it fails, the error is
  returned and the store is unchanged.
\<close>

theorem DeleteTiddler_by_index:
  assumes "DeleteTiddler remove s title = (r, s', asked)"
  shows "asked = [fileOf (tiddlerToFile s) title]
    \<and> (remove (fileOf (tiddlerToFile s) title) = None \<longrightarrow>
           r = Ok () \<and> title \<notin> mapKeys (tiddlerToFile s') \<and> title \<notin> mapKeys (tiddlerCache s')
           \<and> (\<forall>k. k \<noteq> title \<longrightarrow>
                 mapGet (tiddlerToFile s') k = mapGet (tiddlerToFile s) k
               \<and> mapGet (tiddlerCache s') k = mapGet (tiddlerCache s) k))
    \<and> (\<forall>e. remove (fileOf (tiddlerToFile s) title) = Some e \<longrightarrow> r = Err e \<and> s' = s)"
  using assms
  by (auto simp: DeleteTiddler_def Let_def mapDelete_key mapDelete_other split: option.splits)

theorem DeleteTiddler_by_index_witness:
  "\<exists>s'. DeleteTiddler (memRemove [(''wiki/tiddlers/A.tid'', ''title: A'' @ [NL])])
       \<lparr>baseDir = ''wiki'', tiddlersDir = ''wiki/tiddlers'',
        tiddlerToFile = GoMap [''A'' \<mapsto> ''wiki/tiddlers/A.tid''],
        tiddlerCache = GoMap [''A'' \<mapsto> [''title'' \<mapsto> VStr ''A'']]\<rparr> ''A''
      = (Ok (), s', [''wiki/tiddlers/A.tid''])
    \<and> ''A'' \<notin> mapKeys (tiddlerToFile s') \<and> ''A'' \<notin> mapKeys (tiddlerCache s')"
proof -
  let ?rm = "memRemove [(''wiki/tiddlers/A.tid'', ''title: A'' @ [NL])]"
  let ?s = "\<lparr>baseDir = ''wiki'', tiddlersDir = ''wiki/tiddlers'',
        tiddlerToFile = GoMap [''A'' \<mapsto> ''wiki/tiddlers/A.tid''],
        tiddlerCache = GoMap [''A'' \<mapsto> [''title'' \<mapsto> VStr ''A'']]\<rparr>"
  obtain r s' asked where run: "DeleteTiddler ?rm ?s ''A'' = (r, s', asked)"
    by (metis prod_cases3)
  have loc: "fileOf (tiddlerToFile ?s) ''A'' = ''wiki/tiddlers/A.tid''"
    by (simp add: fileOf_def)
  have rm: "?rm ''wiki/tiddlers/A.tid'' = None"
    by (simp add: memRemove_def)
  have "asked = [''wiki/tiddlers/A.tid''] \<and> r = Ok ()
      \<and> ''A'' \<notin> mapKeys (tiddlerToFile s') \<and> ''A'' \<notin> mapKeys (tiddlerCache s')"
    using DeleteTiddler_by_index [OF run] rm unfolding loc by blast
  then show ?thesis
    using run by blast
qed

section \<open>Properties of the bulk enumeration\<close>

lemma allStr_upd: "allStr tid \<Longrightarrow> allStr (tid(k \<mapsto> VStr x))"
  by (simp add: allStr_def)

lemma readLines_allStr:
  assumes "readLines tid s = Ok tid'" and "allStr tid"
  shows "allStr tid'"
  using assms
proof (induction "length (data s)" arbitrary: s tid rule: less_induct)
  case less
  obtain line rerr rest where rs: "ReadString s = (line, rerr, rest)"
    by (metis prod_cases3)
  show ?case
  proof (cases "reWhitespaceOnly line")
    case True
    then show ?thesis
      using less.prems by (auto simp: readLines_step [OF rs] allStr_upd split: if_splits)
  next
    case False
    then have "line \<noteq> []"
      by (auto simp: reWhitespaceOnly_def)
    then have shorter: "length (data rest) < length (data s)"
      using rs by (rule ReadString_shorter [rotated])
    have run: "readLines (tid(fieldName line \<mapsto> VStr (fieldValue line))) rest = Ok tid'"
      using less.prems(1) False by (simp add: readLines_step [OF rs] split: if_splits)
    show ?thesis
      using shorter run allStr_upd [OF less.prems(2)] by (rule less.hyps)
  qed
qed

lemma Read_allStr:
  assumes "TiddlerFile_Read r = Ok tid"
  shows "allStr tid"
proof -
  obtain s tid0 where run: "readLines Map.empty s = Ok tid0"
    and tid: "tid = (if tid0 ''revision'' = None then tid0(''revision'' \<mapsto> VStr ''0'') else tid0)"
    using assms by (auto simp: TiddlerFile_Read_def split: option.splits outcome.splits)
  have "allStr Map.empty"
    by (simp add: allStr_def)
  with run have "allStr tid0"
    by (rule readLines_allStr)
  then show ?thesis
    unfolding tid by (simp add: allStr_upd)
qed

lemma decoded_title:
  assumes "fst (readTiddlerFileWithReadCloser path reader) = Ok tid"
  shows "tid ''title'' = None \<or> (\<exists>t. tid ''title'' = Some (VStr t))"
proof -
  obtain f tid0 where "TiddlerFile_Read (Some f) = Ok tid0"
    and "tid ''title'' = tid0 ''title''"
    using assms
    by (auto simp: readTiddlerFileWithReadCloser_def Let_def
        split: sum.splits outcome.splits if_splits prod.splits option.splits fieldval.splits)
  then show ?thesis
    using Read_allStr [of "Some f" tid0] by (cases "tid0 ''title''") (auto simp: allStr_def)
qed


lemma loggedErrors_Nil: "loggedErrors reader [] = []"
  by (simp add: loggedErrors_def map_filter_simps)

lemma loggedErrors_Cons:
  "loggedErrors reader (p # ps) =
     (case fst (readTiddlerFileWithReadCloser p reader) of
        Err e \<Rightarrow> [e] | Ok t \<Rightarrow> [] | Panic q \<Rightarrow> []) @ loggedErrors reader ps"
  by (simp add: loggedErrors_def map_filter_simps split: outcome.splits)

lemma titlesOf_Nil: "titlesOf reader [] = {}"
  by (simp add: titlesOf_def)

lemma titlesOf_Cons:
  "titlesOf reader (p # ps) =
     (case fst (readTiddlerFileWithReadCloser p reader) of
        Ok tid \<Rightarrow> (case tid ''title'' of Some (VStr t) \<Rightarrow> {t} | _ \<Rightarrow> {})
      | _ \<Rightarrow> {}) \<union> titlesOf reader ps"
  by (auto simp: titlesOf_def split: outcome.splits option.splits fieldval.splits)

lemma indexLoop_succeeds:
  assumes "\<forall>p \<in> set paths. \<forall>q. fst (readTiddlerFileWithReadCloser p reader) \<noteq> Panic q"
  shows "\<exists>i c. indexLoop reader paths index cache log
           = Ok (i, c, log @ loggedErrors reader paths)"
  using assms
proof (induction paths arbitrary: index cache log)
  case Nil
  then show ?case
    by (simp add: loggedErrors_Nil)
next
  case (Cons p ps)
  then have rest: "\<forall>p \<in> set ps. \<forall>q. fst (readTiddlerFileWithReadCloser p reader) \<noteq> Panic q"
    by simp
  show ?case
  proof (cases "fst (readTiddlerFileWithReadCloser p reader)")
    case (Ok tid)
    from decoded_title [OF this] show ?thesis
    proof
      assume "tid ''title'' = None"
      then show ?thesis
        using Ok Cons.IH [OF rest, of index cache log] by (simp add: loggedErrors_Cons)
    next
      assume "\<exists>t. tid ''title'' = Some (VStr t)"
      then obtain t where t: "tid ''title'' = Some (VStr t)" ..
      have step: "indexLoop reader (p # ps) index cache log
          = indexLoop reader ps (index(t \<mapsto> p)) (cache(t \<mapsto> tid)) log"
        using Ok t by simp
      have le: "loggedErrors reader (p # ps) = loggedErrors reader ps"
        using Ok by (simp add: loggedErrors_Cons)
      show ?thesis
        unfolding step le by (rule Cons.IH [OF rest])
    qed
  next
    case (Err e)
    then show ?thesis
      using Cons.IH [OF rest, of index cache "log @ [e]"] by (simp add: loggedErrors_Cons)
  next
    case (Panic q)
    then show ?thesis
      using Cons.prems by simp
  qed
qed

lemma indexLoop_dom:
  assumes "indexLoop reader paths index cache log = Ok (i, c, l)"
  shows "dom i = dom index \<union> titlesOf reader paths \<and> dom c = dom cache \<union> titlesOf reader paths"
  using assms
proof (induction paths arbitrary: index cache log)
  case Nil
  then show ?case
    by (simp add: titlesOf_Nil)
next
  case (Cons p ps)
  show ?case
  proof (cases "fst (readTiddlerFileWithReadCloser p reader)")
    case (Ok tid)
    show ?thesis
    proof (cases "tid ''title''")
      case None
      then show ?thesis
        using Ok Cons.prems Cons.IH [of index cache log] by (simp add: titlesOf_Cons)
    next
      case (Some v)
      then obtain t where v: "v = VStr t"
        using Ok Cons.prems by (cases v) simp_all
      have "indexLoop reader ps (index(t \<mapsto> p)) (cache(t \<mapsto> tid)) log = Ok (i, c, l)"
        using Ok Some v Cons.prems by simp
      from Cons.IH [OF this] show ?thesis
        using Ok Some v by (auto simp: titlesOf_Cons)
    qed
  next
    case (Err e)
    then show ?thesis
      using Cons.prems Cons.IH [of index cache "log @ [e]"] by (simp add: titlesOf_Cons)
  next
    case (Panic q)
    then show ?thesis
      using Cons.prems by simp
  qed
qed

lemma indexLoop_indexedFrom:
  assumes "indexLoop reader paths index cache log = Ok (i, c, l)"
    and "set paths \<subseteq> P" and "indexedFrom reader P index cache"
  shows "indexedFrom reader P i c"
  using assms
proof (induction paths arbitrary: index cache log)
  case Nil
  then show ?case
    by simp
next
  case (Cons p ps)
  then have sub: "set ps \<subseteq> P" and p: "p \<in> P"
    by simp_all
  show ?case
  proof (cases "fst (readTiddlerFileWithReadCloser p reader)")
    case (Ok tid)
    show ?thesis
    proof (cases "tid ''title''")
      case None
      then show ?thesis
        using Ok Cons.prems Cons.IH [of index cache log, OF _ sub] by simp
    next
      case (Some v)
      then obtain t where v: "v = VStr t"
        using Ok Cons.prems by (cases v) simp_all
      have run: "indexLoop reader ps (index(t \<mapsto> p)) (cache(t \<mapsto> tid)) log = Ok (i, c, l)"
        using Ok Some v Cons.prems by simp
      have "indexedFrom reader P (index(t \<mapsto> p)) (cache(t \<mapsto> tid))"
        using Cons.prems(3) p Ok Some v unfolding indexedFrom_def by auto
      with run sub show ?thesis
        by (rule Cons.IH)
    qed
  next
    case (Err e)
    then show ?thesis
      using Cons.prems Cons.IH [of index cache "log @ [e]", OF _ sub] by simp
  next
    case (Panic q)
    then show ?thesis
      using Cons.prems by simp
  qed
qed

text \<open>
  Claim C3, amended.  In the construction of index and cache, when no location makes
  the decoder panic, the construction succeeds; every location on which the decoder
  reports an error (it cannot be opened, or its sidecar cannot be opened or read) is
  logged and skipped; and the titles of index and cache are exactly the titles of the
  locations that decode to a titled record, each indexed at such a location and cached
  with the record decoded from it.  The order of the insertions is any order.
\<close>

theorem buildCacheAndIndex_skips_failed_locations:
  assumes "\<forall>p \<in> set paths. \<forall>q. fst (readTiddlerFileWithReadCloser p reader) \<noteq> Panic q"
  shows "\<exists>index cache.
      buildCacheAndIndex (Inr paths) reader = Ok (index, cache, loggedErrors reader paths)
    \<and> dom index = titlesOf reader paths \<and> dom cache = titlesOf reader paths
    \<and> indexedFrom reader (set paths) index cache"
proof -
  obtain i c where run: "indexLoop reader paths Map.empty Map.empty [] = Ok (i, c, [] @ loggedErrors reader paths)"
    using indexLoop_succeeds [OF assms] by blast
  have "indexedFrom reader (set paths) Map.empty Map.empty"
    by (simp add: indexedFrom_def)
  then have "indexedFrom reader (set paths) i c"
    by (rule indexLoop_indexedFrom [OF run subset_refl])
  then show ?thesis
    using run indexLoop_dom [OF run] by (simp add: buildCacheAndIndex_def)
qed


theorem buildCacheAndIndex_skips_failed_locations_witness:
  "\<exists>index cache.
      buildCacheAndIndex (Inr [''t/gone.tid'', ''t/A.tid''])
          (memReader [(''t/A.tid'', ''title: A'' @ [NL])])
        = Ok (index, cache,
              [CouldNotOpenFile ''t/gone.tid'' (BackendError ''no such file or directory'')])
    \<and> dom index = {''A''} \<and> dom cache = {''A''} \<and> index ''A'' = Some ''t/A.tid''"
proof -
  let ?reader = "memReader [(''t/A.tid'', ''title: A'' @ [NL])]"
  let ?paths = "[''t/gone.tid'', ''t/A.tid'']"
  have "case fst (readTiddlerFileWithReadCloser ''t/gone.tid'' ?reader) of
          Ok t \<Rightarrow> False
        | Err e \<Rightarrow> e = CouldNotOpenFile ''t/gone.tid'' (BackendError ''no such file or directory'')
        | Panic p \<Rightarrow> False"
    by code_simp
  from case_ErrD [OF this]
  have gone: "fst (readTiddlerFileWithReadCloser ''t/gone.tid'' ?reader)
      = Err (CouldNotOpenFile ''t/gone.tid'' (BackendError ''no such file or directory''))"
    by auto
  have "case fst (readTiddlerFileWithReadCloser ''t/A.tid'' ?reader) of
          Ok t \<Rightarrow> t ''title'' = Some (VStr ''A'') | Err e \<Rightarrow> False | Panic p \<Rightarrow> False"
    by code_simp
  from case_OkD [OF this] obtain tid where
    a: "fst (readTiddlerFileWithReadCloser ''t/A.tid'' ?reader) = Ok tid"
    and title: "tid ''title'' = Some (VStr ''A'')"
    by blast
  have hyp: "\<forall>p \<in> set ?paths. \<forall>q. fst (readTiddlerFileWithReadCloser p ?reader) \<noteq> Panic q"
    using gone a by simp
  have log: "loggedErrors ?reader ?paths
      = [CouldNotOpenFile ''t/gone.tid'' (BackendError ''no such file or directory'')]"
    using gone a by (simp add: loggedErrors_Cons loggedErrors_Nil)
  have titles: "titlesOf ?reader ?paths = {''A''}"
    using gone a title by (simp add: titlesOf_Cons titlesOf_Nil)
  obtain index cache where
    run: "buildCacheAndIndex (Inr ?paths) ?reader = Ok (index, cache, loggedErrors ?reader ?paths)"
    and di: "dom index = titlesOf ?reader ?paths" and dc: "dom cache = titlesOf ?reader ?paths"
    and ixf: "indexedFrom ?reader (set ?paths) index cache"
    using buildCacheAndIndex_skips_failed_locations [OF hyp] by blast
  obtain p where p: "index ''A'' = Some p"
    using di titles by (metis domD insertI1)
  have "p = ''t/A.tid''"
    using ixf p gone unfolding indexedFrom_def by fastforce
  then show ?thesis
    using run di dc p unfolding log titles by blast
qed

text \<open>
  Claim C3, as stated, covers both bulk enumerations and every failure on a location.
  It fails for the full listing: a location that cannot be opened leaves a nil record,
  in which the listing finds no title, and the listing panics with the location.  It
  fails for a location that does not parse, in either enumeration: the decoder panics
  on a header line without a colon, and a panic in a worker ends the pass.
\<close>

theorem bulk_enumeration_can_abort:
  "getAllTiddlerFilesFromStore [] (GoMap Map.empty)
       (memReader [(''t/A.tid'', ''title: A'' @ [NL])]) (Inr [''t/gone.tid'', ''t/A.tid''])
     = Panic (ExplicitPanic ''t/gone.tid'')
   \<and> buildCacheAndIndex (Inr [''t/bad.tid'', ''t/A.tid''])
       (memReader [(''t/bad.tid'', ''no colon here'' @ [NL]), (''t/A.tid'', ''title: A'' @ [NL])])
     = Panic SliceOutOfRange"
proof -
  have "case listLoop (memReader [(''t/A.tid'', ''title: A'' @ [NL])])
            [''t/gone.tid'', ''t/A.tid''] [] [] of
          Ok r \<Rightarrow> False | Err e \<Rightarrow> False | Panic p \<Rightarrow> p = ExplicitPanic ''t/gone.tid''"
    by code_simp
  from case_PanicD [OF this]
  have a: "getAllTiddlerFilesFromStore [] (GoMap Map.empty)
       (memReader [(''t/A.tid'', ''title: A'' @ [NL])]) (Inr [''t/gone.tid'', ''t/A.tid''])
     = Panic (ExplicitPanic ''t/gone.tid'')"
    by (auto simp: getAllTiddlerFilesFromStore_def)
  have "case buildCacheAndIndex (Inr [''t/bad.tid'', ''t/A.tid''])
       (memReader [(''t/bad.tid'', ''no colon here'' @ [NL]), (''t/A.tid'', ''title: A'' @ [NL])]) of
          Ok r \<Rightarrow> False | Err e \<Rightarrow> False | Panic p \<Rightarrow> p = SliceOutOfRange"
    by code_simp
  from case_PanicD [OF this] a show ?thesis
    by auto
qed

section \<open>Properties of writing and of the lock-step of index and cache\<close>













section \<open>Encoding and decoding a record\<close>

lemma find_Some_holds: "find P xs = Some x \<Longrightarrow> P x \<and> x \<in> set xs"
  by (induction xs) (auto split: if_splits)

lemma trimLeading_only_NL:
  assumes pats: "\<forall>p \<in> set pats. p \<noteq> [] \<longrightarrow> last p = NL \<longrightarrow> p = [NL]" and nl: "[NL] \<in> set pats"
  shows "trimLeading pats [NL] = []"
proof (cases "find (\<lambda>p. p \<noteq> [] \<and> prefix p [NL]) pats")
  case None
  then have "\<not> ([NL] \<noteq> [] \<and> prefix [NL] [NL])"
    using nl unfolding find_None_iff by blast
  then show ?thesis
    by simp
next
  case (Some p)
  then have "p \<noteq> []" and "prefix p [NL]"
    using find_Some_holds [OF Some] by simp_all
  then have "length p = 1"
    using prefix_length_le [of p "[NL]"] by (cases p) simp_all
  then show ?thesis
    using Some by simp
qed

lemma prefix_snoc_NL:
  assumes pats: "\<forall>p \<in> set pats. p \<noteq> [] \<longrightarrow> last p = NL \<longrightarrow> p = [NL]"
    and "p \<in> set pats"
  shows "(p \<noteq> [] \<and> prefix p (c # cs @ [NL])) \<longleftrightarrow> (p \<noteq> [] \<and> prefix p (c # cs))"
proof (cases "p = (c # cs) @ [NL]")
  case True
  then have "last p = NL" and "p \<noteq> []"
    by simp_all
  then have "p = [NL]"
    using assms by blast
  then show ?thesis
    using True by simp
next
  case False
  have "prefix p ((c # cs) @ [NL]) \<longleftrightarrow> p = (c # cs) @ [NL] \<or> prefix p (c # cs)"
    by (rule prefix_snoc)
  then show ?thesis
    using False by simp
qed

lemma trimLeading_snoc_NL:
  assumes pats: "\<forall>p \<in> set pats. p \<noteq> [] \<longrightarrow> last p = NL \<longrightarrow> p = [NL]" and nl: "[NL] \<in> set pats"
  shows "trimLeading pats (x @ [NL]) =
     (if trimLeading pats x = [] then [] else trimLeading pats x @ [NL])"
proof (induction "length x" arbitrary: x rule: less_induct)
  case less
  show ?case
  proof (cases x)
    case Nil
    then show ?thesis
      using trimLeading_only_NL [OF assms] by simp
  next
    case (Cons c cs)
    have f: "find (\<lambda>p. p \<noteq> [] \<and> prefix p (c # cs @ [NL])) pats
        = find (\<lambda>p. p \<noteq> [] \<and> prefix p (c # cs)) pats"
      using prefix_snoc_NL [OF pats] by (intro find_cong refl) blast
    show ?thesis
    proof (cases "find (\<lambda>p. p \<noteq> [] \<and> prefix p (c # cs)) pats")
      case None
      then show ?thesis
        unfolding Cons using f by simp
    next
      case (Some p)
      then have "p \<noteq> []" and "prefix p (c # cs)"
        using find_Some_holds [OF Some] by simp_all
      then have le: "length p - 1 \<le> length cs"
        using prefix_length_le [of p "c # cs"] by simp
      then have d: "drop (length p - 1) (cs @ [NL]) = drop (length p - 1) cs @ [NL]"
        by simp
      have "length (drop (length p - 1) cs) < length x"
        unfolding Cons by simp
      from less.hyps [OF this]
      have IH: "trimLeading pats (drop (length p - 1) cs @ [NL]) =
         (if trimLeading pats (drop (length p - 1) cs) = [] then []
          else trimLeading pats (drop (length p - 1) cs) @ [NL])" .
      have l: "trimLeading pats (x @ [NL]) = trimLeading pats (drop (length p - 1) cs @ [NL])"
        unfolding Cons using Some f d by simp
      have r: "trimLeading pats x = trimLeading pats (drop (length p - 1) cs)"
        unfolding Cons using Some by simp
      show ?thesis
        unfolding l r by (rule IH)
    qed
  qed
qed

lemma whiteSpaceRunes_NL:
  "\<forall>p \<in> set whiteSpaceRunes. p \<noteq> [] \<longrightarrow> last p = NL \<longrightarrow> p = [NL]"
  "[NL] \<in> set whiteSpaceRunes"
  by (simp_all add: whiteSpaceRunes_def NL_def)

lemma trimLeading_space:
  "trimLeading whiteSpaceRunes (CHR '' '' # s) = trimLeading whiteSpaceRunes s"
  by (simp add: whiteSpaceRunes_def)

lemma trimTrailing_NL:
  "trimLeading (map rev whiteSpaceRunes) (NL # s) = trimLeading (map rev whiteSpaceRunes) s"
  by (simp add: whiteSpaceRunes_def NL_def)

lemma TrimSpace_line: "TrimSpace (CHR '' '' # x @ [NL]) = TrimSpace x"
proof -
  let ?L = "trimLeading whiteSpaceRunes x"
  have "trimLeading whiteSpaceRunes (CHR '' '' # x @ [NL])
      = trimLeading whiteSpaceRunes (x @ [NL])"
    by (rule trimLeading_space)
  also have "\<dots> = (if ?L = [] then [] else ?L @ [NL])"
    by (rule trimLeading_snoc_NL [OF whiteSpaceRunes_NL])
  finally have front: "trimLeading whiteSpaceRunes (CHR '' '' # x @ [NL])
      = (if ?L = [] then [] else ?L @ [NL])" .
  have trail: "trimLeading (map rev whiteSpaceRunes) (rev (?L @ [NL]))
      = trimLeading (map rev whiteSpaceRunes) (rev ?L)"
    using trimTrailing_NL [of "rev ?L"] by (simp only: rev_append rev.simps append.simps)
  show ?thesis
  proof (cases "?L = []")
    case True
    then show ?thesis
      unfolding TrimSpace_def front by simp
  next
    case False
    then show ?thesis
      unfolding TrimSpace_def front by (simp only: if_False trail)
  qed
qed



lemma ReadString_line:
  assumes "NL \<notin> set a"
  shows "ReadString \<lparr>data = a @ NL # rest, ioerr = e\<rparr>
     = (a @ [NL], None, \<lparr>data = rest, ioerr = e\<rparr>)"
proof -
  have a: "\<And>c. c \<in> set a \<Longrightarrow> c \<noteq> NL"
    using assms by auto
  have "takeWhile (\<lambda>c. c \<noteq> NL) (a @ NL # rest) = a"
    using a by simp
  moreover have "dropWhile (\<lambda>c. c \<noteq> NL) (a @ NL # rest) = NL # rest"
    using a by simp
  ultimately show ?thesis
    by (simp add: ReadString_def)
qed

lemma fieldName_line:
  assumes "CHR '':'' \<notin> set k"
  shows "fieldName (k @ '': '' @ x @ [NL]) = k"
proof -
  have "\<And>c. c \<in> set k \<Longrightarrow> c \<noteq> CHR '':''"
    using assms by auto
  then show ?thesis
    by (simp add: fieldName_def)
qed

lemma fieldValue_line:
  assumes "CHR '':'' \<notin> set k"
  shows "fieldValue (k @ '': '' @ x @ [NL]) = TrimSpace x"
proof -
  have "\<And>c. c \<in> set k \<Longrightarrow> c \<noteq> CHR '':''"
    using assms by auto
  then have "dropWhile (\<lambda>c. c \<noteq> CHR '':'') (k @ CHR '':'' # CHR '' '' # x @ [NL])
      = CHR '':'' # CHR '' '' # x @ [NL]"
    by simp
  then show ?thesis
    by (simp add: fieldValue_def TrimSpace_line)
qed

lemma readLines_header_line:
  assumes "CHR '':'' \<notin> set k" and "NL \<notin> set k" and "NL \<notin> set x"
  shows "readLines tid \<lparr>data = (k @ '': '' @ x @ [NL]) @ rest, ioerr = e\<rparr>
     = readLines (tid(k \<mapsto> VStr (TrimSpace x))) \<lparr>data = rest, ioerr = e\<rparr>"
proof -
  have nl: "NL \<notin> set (k @ '': '' @ x)"
    using assms by (simp add: NL_def)
  have rs: "ReadString \<lparr>data = (k @ '': '' @ x @ [NL]) @ rest, ioerr = e\<rparr>
     = ((k @ '': '' @ x) @ [NL], None, \<lparr>data = rest, ioerr = e\<rparr>)"
    using ReadString_line [OF nl, of rest e] by simp
  have ws: "\<not> reWhitespaceOnly ((k @ '': '' @ x) @ [NL])"
    by (simp add: reWhitespaceOnly_def reSpaceClass_def)
  have colon: "CHR '':'' \<in> set ((k @ '': '' @ x) @ [NL])"
    by simp
  have "readLines tid \<lparr>data = (k @ '': '' @ x @ [NL]) @ rest, ioerr = e\<rparr>
      = readLines (tid(fieldName ((k @ '': '' @ x) @ [NL])
           \<mapsto> VStr (fieldValue ((k @ '': '' @ x) @ [NL])))) \<lparr>data = rest, ioerr = e\<rparr>"
    unfolding readLines_step [OF rs] using ws colon by simp
  then show ?thesis
    using fieldName_line [OF assms(1), of x] fieldValue_line [OF assms(1), of x] by simp
qed

lemma readLines_blank_line:
  "readLines tid \<lparr>data = NL # content, ioerr = e\<rparr>
     = Ok (if content \<noteq> [] then tid(''text'' \<mapsto> VStr content) else tid)"
proof -
  have rs: "ReadString \<lparr>data = NL # content, ioerr = e\<rparr> = ([NL], None, \<lparr>data = content, ioerr = e\<rparr>)"
    using ReadString_line [of "[]" content e] by simp
  show ?thesis
    unfolding readLines_step [OF rs] by (simp add: reWhitespaceOnly_def reSpaceClass_def NL_def)
qed

lemma headerBytes_read:
  assumes "lineEncodable t" and "set ks \<subseteq> dom t"
  shows "\<exists>hdr. headerBytes ks t = Ok hdr
     \<and> (\<forall>tid rest e. readLines tid \<lparr>data = hdr @ rest, ioerr = e\<rparr>
           = readLines (tid ++ (t |` (set ks - {''text''}))) \<lparr>data = rest, ioerr = e\<rparr>)"
  using assms(2)
proof (induction ks)
  case Nil
  then show ?case
    by simp
next
  case (Cons k ks)
  then obtain v where v: "t k = Some v" and sub: "set ks \<subseteq> dom t"
    by auto
  obtain hdr where hdr: "headerBytes ks t = Ok hdr"
    and rd: "\<And>tid rest e. readLines tid \<lparr>data = hdr @ rest, ioerr = e\<rparr>
           = readLines (tid ++ (t |` (set ks - {''text''}))) \<lparr>data = rest, ioerr = e\<rparr>"
    using Cons.IH [OF sub] by blast
  obtain x where x: "v = VStr x"
    and wf: "if k = ''text'' then x \<noteq> []
       else k \<noteq> ''fields'' \<and> CHR '':'' \<notin> set k \<and> NL \<notin> set k \<and> NL \<notin> set x \<and> TrimSpace x = x"
    using assms(1) v unfolding lineEncodable_def by blast
  show ?case
  proof (cases "k = ''text''")
    case True
    then have "headerBytes (k # ks) t = Ok hdr"
      using v hdr by (simp add: fieldLines_def)
    moreover have "set (k # ks) - {''text''} = set ks - {''text''}"
      using True by auto
    ultimately show ?thesis
      using rd by simp
  next
    case False
    then have k: "k \<noteq> ''fields''" "CHR '':'' \<notin> set k" "NL \<notin> set k" "NL \<notin> set x" "TrimSpace x = x"
      using wf by simp_all
    have enc: "headerBytes (k # ks) t = Ok ((k @ '': '' @ x @ [NL]) @ hdr)"
      using v x hdr False k(1) by (simp add: fieldLines_def)
    have m: "(tid(k \<mapsto> VStr x)) ++ (t |` (set ks - {''text''}))
        = tid ++ (t |` (set (k # ks) - {''text''}))" for tid
      using v x False by (auto simp: map_add_def restrict_map_def split: option.splits)
    have "readLines tid \<lparr>data = ((k @ '': '' @ x @ [NL]) @ hdr) @ rest, ioerr = e\<rparr>
        = readLines (tid ++ (t |` (set (k # ks) - {''text''}))) \<lparr>data = rest, ioerr = e\<rparr>"
      for tid rest e
    proof -
      have "readLines tid \<lparr>data = (k @ '': '' @ x @ [NL]) @ (hdr @ rest), ioerr = e\<rparr>
          = readLines (tid(k \<mapsto> VStr (TrimSpace x))) \<lparr>data = hdr @ rest, ioerr = e\<rparr>"
        using k by (intro readLines_header_line)
      also have "\<dots> = readLines ((tid(k \<mapsto> VStr x)) ++ (t |` (set ks - {''text''})))
            \<lparr>data = rest, ioerr = e\<rparr>"
        unfolding k(5) by (rule rd)
      finally show ?thesis
        unfolding m by simp
    qed
    then show ?thesis
      using enc by blast
  qed
qed

text \<open>
  Claim C4, amended.  For every line-encodable record and every order in which the
  encoder visits its fields, encoding succeeds, and decoding the bytes gives the record
  back, field for field, with \<^verbatim>\<open>revision\<close> set to \<^verbatim>\<open>"0"\<close> when the record has none.  (All
  values being strings, \<^verbatim>\<open>tags\<close> is a string and comes back as the same string.)
\<close>

theorem roundtrip:
  assumes "lineEncodable t" and "set ks = dom t"
  shows "\<exists>buf. encode ks t = Ok buf
     \<and> TiddlerFile_Read (Some \<lparr>data = buf, ioerr = e\<rparr>)
         = Ok (if t ''revision'' = None then t(''revision'' \<mapsto> VStr ''0'') else t)"
proof -
  have sub: "set ks \<subseteq> dom t"
    using assms(2) by simp
  obtain hdr where hdr: "headerBytes ks t = Ok hdr"
    and rd: "\<And>tid rest e. readLines tid \<lparr>data = hdr @ rest, ioerr = e\<rparr>
           = readLines (tid ++ (t |` (set ks - {''text''}))) \<lparr>data = rest, ioerr = e\<rparr>"
    using headerBytes_read [OF assms(1) sub] by blast
  define content where "content = (case t ''text'' of None \<Rightarrow> [] | Some v \<Rightarrow> (case v of VStr x \<Rightarrow> x | _ \<Rightarrow> []))"
  have bodyOk: "(case t ''text'' of None \<Rightarrow> Ok [] | Some v \<Rightarrow> stringOf v) = Ok content"
    using assms(1) unfolding lineEncodable_def content_def by (fastforce split: option.splits)
  have enc: "encode ks t = Ok (hdr @ NL # content)"
    using hdr bodyOk by (simp add: encode_def)
  have restored: "(if content \<noteq> [] then (Map.empty ++ (t |` (set ks - {''text''})))(''text'' \<mapsto> VStr content)
      else Map.empty ++ (t |` (set ks - {''text''}))) = t"
  proof (cases "t ''text''")
    case None
    then have "content = []"
      by (simp add: content_def)
    moreover have "t |` (set ks - {''text''}) = t"
      using None assms(2) by (auto simp: restrict_map_def fun_eq_iff domIff)
    ultimately show ?thesis
      by simp
  next
    case (Some v)
    then have v: "v = VStr content" and ne: "content \<noteq> []"
      using assms(1) unfolding lineEncodable_def content_def by fastforce+
    have "(t |` (set ks - {''text''}))(''text'' \<mapsto> VStr content) = t"
      using Some v assms(2) by (auto simp: restrict_map_def fun_eq_iff domIff)
    then show ?thesis
      using ne by simp
  qed
  have "readLines Map.empty \<lparr>data = hdr @ NL # content, ioerr = e\<rparr> = Ok t"
    unfolding rd readLines_blank_line restored ..
  then show ?thesis
    using enc by (simp add: TiddlerFile_Read_def)
qed


theorem roundtrip_witness:
  "lineEncodable [''title'' \<mapsto> VStr ''A'', ''tags'' \<mapsto> VStr ''x [[y z]]'',
               ''text'' \<mapsto> VStr (''one'' @ [NL] @ [NL] @ ''two: 2 '')]
   \<and> set [''tags'', ''text'', ''title'']
       = dom [''title'' \<mapsto> VStr ''A'', ''tags'' \<mapsto> VStr ''x [[y z]]'',
              ''text'' \<mapsto> VStr (''one'' @ [NL] @ [NL] @ ''two: 2 '')]
   \<and> encode [''tags'', ''text'', ''title'']
         [''title'' \<mapsto> VStr ''A'', ''tags'' \<mapsto> VStr ''x [[y z]]'',
          ''text'' \<mapsto> VStr (''one'' @ [NL] @ [NL] @ ''two: 2 '')]
       = Ok (''tags: x [[y z]]'' @ [NL] @ ''title: A'' @ [NL] @ [NL]
             @ ''one'' @ [NL] @ [NL] @ ''two: 2 '')
   \<and> TiddlerFile_Read (Some \<lparr>data = ''tags: x [[y z]]'' @ [NL] @ ''title: A'' @ [NL] @ [NL]
             @ ''one'' @ [NL] @ [NL] @ ''two: 2 '', ioerr = False\<rparr>)
       = Ok [''title'' \<mapsto> VStr ''A'', ''tags'' \<mapsto> VStr ''x [[y z]]'',
             ''text'' \<mapsto> VStr (''one'' @ [NL] @ [NL] @ ''two: 2 ''),
             ''revision'' \<mapsto> VStr ''0'']"
proof -
  let ?t = "[''title'' \<mapsto> VStr ''A'', ''tags'' \<mapsto> VStr ''x [[y z]]'',
             ''text'' \<mapsto> VStr (''one'' @ [NL] @ [NL] @ ''two: 2 '')]"
  let ?ks = "[''tags'', ''text'', ''title'']"
  have trim: "TrimSpace ''A'' = ''A''" "TrimSpace ''x [[y z]]'' = ''x [[y z]]''"
    by code_simp+
  have wf: "lineEncodable ?t"
    unfolding lineEncodable_def by (simp add: trim NL_def)
  have ks: "set ?ks = dom ?t"
    by auto
  have enc: "encode ?ks ?t = Ok (''tags: x [[y z]]'' @ [NL] @ ''title: A'' @ [NL] @ [NL]
             @ ''one'' @ [NL] @ [NL] @ ''two: 2 '')"
    by (simp add: encode_def fieldLines_def)
  have rev: "?t ''revision'' = None"
    by simp
  obtain buf where "encode ?ks ?t = Ok buf"
    and "TiddlerFile_Read (Some \<lparr>data = buf, ioerr = False\<rparr>)
         = Ok (if ?t ''revision'' = None then ?t(''revision'' \<mapsto> VStr ''0'') else ?t)"
    using roundtrip [OF wf ks, of False] by blast
  then have "TiddlerFile_Read (Some \<lparr>data = ''tags: x [[y z]]'' @ [NL] @ ''title: A'' @ [NL] @ [NL]
             @ ''one'' @ [NL] @ [NL] @ ''two: 2 '', ioerr = False\<rparr>)
         = Ok (?t(''revision'' \<mapsto> VStr ''0''))"
    unfolding enc rev by simp
  then show ?thesis
    using wf ks enc by blast
qed

text \<open>
  Claim C4, as stated, holds for every record whose values are strings.  The decoder
  trims the value of a header line, so a value with white space at its front does not
  come back: the record with \<^verbatim>\<open>caption\<close> \<open>'' x''\<close> is decoded with \<^verbatim>\<open>caption\<close> \<open>''x''\<close>.
\<close>

theorem roundtrip_trims_values:
  "allStr [''title'' \<mapsto> VStr ''A'', ''caption'' \<mapsto> VStr '' x'']
   \<and> encode [''title'', ''caption''] [''title'' \<mapsto> VStr ''A'', ''caption'' \<mapsto> VStr '' x'']
       = Ok (''title: A'' @ [NL] @ ''caption:  x'' @ [NL] @ [NL])
   \<and> (\<exists>tid. TiddlerFile_Read
          (Some \<lparr>data = ''title: A'' @ [NL] @ ''caption:  x'' @ [NL] @ [NL], ioerr = False\<rparr>)
            = Ok tid
        \<and> tid ''caption'' = Some (VStr ''x'')
        \<and> tid ''caption'' \<noteq> [''title'' \<mapsto> VStr ''A'', ''caption'' \<mapsto> VStr '' x''] ''caption'')"
proof -
  have a: "allStr [''title'' \<mapsto> VStr ''A'', ''caption'' \<mapsto> VStr '' x'']"
    by (simp add: allStr_def)
  have enc: "encode [''title'', ''caption''] [''title'' \<mapsto> VStr ''A'', ''caption'' \<mapsto> VStr '' x'']
       = Ok (''title: A'' @ [NL] @ ''caption:  x'' @ [NL] @ [NL])"
    by (simp add: encode_def fieldLines_def)
  have "case TiddlerFile_Read
          (Some \<lparr>data = ''title: A'' @ [NL] @ ''caption:  x'' @ [NL] @ [NL], ioerr = False\<rparr>) of
      Ok tid \<Rightarrow> tid ''caption'' = Some (VStr ''x'')
    | Err e \<Rightarrow> False
    | Panic p \<Rightarrow> False"
    by code_simp
  from case_OkD [OF this] obtain tid where
    "TiddlerFile_Read
          (Some \<lparr>data = ''title: A'' @ [NL] @ ''caption:  x'' @ [NL] @ [NL], ioerr = False\<rparr>)
       = Ok tid" and "tid ''caption'' = Some (VStr ''x'')"
    by blast
  moreover from this have
    "tid ''caption'' \<noteq> [''title'' \<mapsto> VStr ''A'', ''caption'' \<mapsto> VStr '' x''] ''caption''"
    by simp
  ultimately show ?thesis
    using a enc by blast
qed

end
